theory Spec2Isabelle
  imports Main
begin

section \<open>Python strings\<close>

text \<open>
  A Python \<^verbatim>\<open>str\<close> is a sequence of Unicode code points; \<^verbatim>\<open>len\<close>, slicing and
  the regular expressions of \<^verbatim>\<open>re\<close> all count code points. A string is therefore a
  list of natural numbers, and \<open>ascii\<close> turns an ASCII literal into one.
\<close>

type_synonym str = "nat list"

definition ascii :: "string \<Rightarrow> str" where
  "ascii = map of_char"

text \<open>Truth value of an \<^verbatim>\<open>Optional[str]\<close>: \<^verbatim>\<open>None\<close> and \<^verbatim>\<open>""\<close> are false.\<close>

fun truthy :: "str option \<Rightarrow> bool" where
  "truthy None = False"
| "truthy (Some s) = (s \<noteq> [])"

text \<open>
  \<^verbatim>\<open>str.isspace\<close> for one code point. The same set is what \<^verbatim>\<open>\s\<close> matches in a
  \<^verbatim>\<open>str\<close> pattern and what \<^verbatim>\<open>str.strip()\<close> removes.
\<close>

definition isspace :: "nat \<Rightarrow> bool" where
  "isspace c \<longleftrightarrow>
     (9 \<le> c \<and> c \<le> 13) \<or> (28 \<le> c \<and> c \<le> 32) \<or> c = 133 \<or> c = 160 \<or> c = 5760 \<or>
     (8192 \<le> c \<and> c \<le> 8202) \<or> c = 8232 \<or> c = 8233 \<or> c = 8239 \<or> c = 8287 \<or> c = 12288"

definition lstrip :: "str \<Rightarrow> str" where
  "lstrip s = dropWhile isspace s"

definition rstrip :: "str \<Rightarrow> str" where
  "rstrip s = rev (dropWhile isspace (rev s))"

definition strip :: "str \<Rightarrow> str" where
  "strip s = rstrip (lstrip s)"

text \<open>\<^verbatim>\<open>s.startswith(p)\<close> and \<^verbatim>\<open>p in s\<close>.\<close>

definition startswith :: "str \<Rightarrow> str \<Rightarrow> bool" where
  "startswith s p \<longleftrightarrow> take (length p) s = p"

fun contains :: "str \<Rightarrow> str \<Rightarrow> bool" where
  "contains [] p = (p = [])"
| "contains (c # cs) p = (startswith (c # cs) p \<or> contains cs p)"

text \<open>
  \<^verbatim>\<open>xs[:n]\<close> for a Python integer \<open>n\<close>: a negative \<open>n\<close> counts from the end.
\<close>

definition slice_to :: "int \<Rightarrow> 'a list \<Rightarrow> 'a list" where
  "slice_to n xs = (if 0 \<le> n then take (nat n) xs else take (length xs - nat (- n)) xs)"

text \<open>\<^verbatim>\<open>sep.join(parts)\<close>.\<close>

fun join :: "str \<Rightarrow> str list \<Rightarrow> str" where
  "join sep [] = []"
| "join sep [p] = p"
| "join sep (p # q # ps) = p @ sep @ join sep (q # ps)"

text \<open>Decimal rendering of a non-negative integer, as \<^verbatim>\<open>f"{i}"\<close> does.\<close>

fun str_of_nat :: "nat \<Rightarrow> str" where
  "str_of_nat n = (if n < 10 then [48 + n] else str_of_nat (n div 10) @ [48 + n mod 10])"

declare str_of_nat.simps [simp del]

section \<open>clean\_text\<close>

text \<open>
  \<^verbatim>\<open>re.sub(r'\s+', ' ', s)\<close>: every maximal run of whitespace becomes one space.
\<close>

function sub_ws :: "str \<Rightarrow> str" where
  "sub_ws [] = []"
| "sub_ws (c # cs) = (if isspace c then 32 # sub_ws (dropWhile isspace cs) else c # sub_ws cs)"
  by pat_completeness auto
termination
  by (relation "measure length") (auto simp: length_dropWhile_le less_Suc_eq_le)

text \<open>
  \<^verbatim>\<open>re.sub(r'&[a-zA-Z0-9#]+;', '', s)\<close>. At an ampersand the greedy run of class
  characters is taken; the match succeeds when the run is not empty and a semicolon
  follows (a shorter run is followed by a class character, so backtracking finds
  nothing more). A match is dropped and the scan goes on behind it; otherwise the
  character is copied and the scan goes on at the next one.
\<close>

definition entity_char :: "nat \<Rightarrow> bool" where
  "entity_char c \<longleftrightarrow> (97 \<le> c \<and> c \<le> 122) \<or> (65 \<le> c \<and> c \<le> 90) \<or> (48 \<le> c \<and> c \<le> 57) \<or> c = 35"

function sub_entities :: "str \<Rightarrow> str" where
  "sub_entities [] = []"
| "sub_entities (c # cs) =
     (if c = 38 \<and> takeWhile entity_char cs \<noteq> [] \<and>
         dropWhile entity_char cs \<noteq> [] \<and> hd (dropWhile entity_char cs) = 59
      then sub_entities (tl (dropWhile entity_char cs))
      else c # sub_entities cs)"
  by pat_completeness auto
termination
  by (relation "measure length")
     (auto simp: less_Suc_eq_le intro: le_trans [OF diff_le_self length_dropWhile_le])

text \<open>
  \<^verbatim>\<open>re.sub(r'<[^>]+>', '', s)\<close>. At a \<^verbatim>\<open><\<close> the greedy run of characters other
  than \<^verbatim>\<open>>\<close> is taken (it may hold further \<^verbatim>\<open><\<close> and newlines); the match succeeds
  when the run is not empty and is followed by a character, which is then \<^verbatim>\<open>>\<close>.
\<close>

function sub_tags :: "str \<Rightarrow> str" where
  "sub_tags [] = []"
| "sub_tags (c # cs) =
     (if c = 60 \<and> takeWhile (\<lambda>d. d \<noteq> 62) cs \<noteq> [] \<and> dropWhile (\<lambda>d. d \<noteq> 62) cs \<noteq> []
      then sub_tags (tl (dropWhile (\<lambda>d. d \<noteq> 62) cs))
      else c # sub_tags cs)"
  by pat_completeness auto
termination
  by (relation "measure length")
     (auto simp: less_Suc_eq_le intro: le_trans [OF diff_le_self length_dropWhile_le])

text \<open>
  \<^verbatim>\<open>
  def clean_text(text):
      if not text:
          return ""
      text = re.sub(r'\s+', ' ', text.strip())
      text = re.sub(r'&[a-zA-Z0-9#]+;', '', text)
      text = re.sub(r'<[^>]+>', '', text)
      return text
  \<close>
  The argument may be \<^verbatim>\<open>None\<close>.
\<close>

definition clean_text :: "str option \<Rightarrow> str" where
  "clean_text text =
     (case text of
        None \<Rightarrow> []
      | Some t \<Rightarrow> if t = [] then [] else sub_tags (sub_entities (sub_ws (strip t))))"

section \<open>String constants of the program\<close>

text \<open>
  The literals of \<^verbatim>\<open>app.py\<close>, code point by code point. The file holds some of its
  symbols as several Latin code points (the bullet of the help text, the arrows of the
  prompt, the two pictographs of \<^verbatim>\<open>perform_search\<close>); they are kept as the file has
  them, so the truncation hint has 60 code points.
\<close>

definition greeting_text :: str where
  "greeting_text =
     ascii ''Hello! How can I help you today? I can search the web for cu'' @
     ascii ''rrent information or answer general questions!''"

definition help_text :: str where
  "help_text =
     ascii ''I'' @ [39] @
     ascii ''m a LINE bot with AI and web search capabilities!'' @
     [10, 10, 226, 8364, 162] @ ascii '' Ask me anything and I'' @ [39] @
     ascii ''ll decide if I need to search for current information'' @
     [10, 226, 8364, 162] @ ascii '' Say '' @ [39] @ ascii ''search [query]'' @
     [39] @ ascii '' for direct web search'' @ [10, 226, 8364, 162] @
     ascii '' I can help with current events, weather, news, tech updates'' @
     ascii '', and more!''"

definition analysis_prompt :: str where
  "analysis_prompt =
     ascii ''You are an AI assistant that analyzes user questions to dete'' @
     ascii ''rmine if they need web search for current information.'' @ [10, 10] @
     ascii ''Analyze the user'' @ [39] @
     ascii ''s question and determine if it requires recent/current infor'' @
     ascii ''mation that would benefit from web search.'' @ [10, 10] @
     ascii ''Questions that NEED web search:'' @ [10] @
     ascii ''- Current events, news, weather'' @ [10] @
     ascii ''- Recent developments, latest updates'' @ [10] @
     ascii ''- Current prices, stock market, live data'' @ [10] @
     ascii ''- Recent sports scores, match results'' @ [10] @ ascii ''- Today'' @
     [39] @ ascii ''s/recent information about anything'' @ [10] @
     ascii ''- Breaking news or trending topics'' @ [10, 10] @
     ascii ''Questions that DON'' @ [39] @ ascii ''T NEED web search:'' @ [10] @
     ascii ''- General knowledge questions'' @ [10] @
     ascii ''- Definitions, explanations of concepts'' @ [10] @
     ascii ''- Historical facts (unless asking for recent updates)'' @ [10] @
     ascii ''- Math calculations'' @ [10] @
     ascii ''- Personal advice or opinions'' @ [10] @
     ascii ''- Simple greetings, casual conversation'' @ [10, 10] @
     ascii ''Respond with one of these tags:'' @ [10] @
     ascii ''- <search>YES</search> if web search is needed'' @ [10] @
     ascii ''- <search>NO</search> if web search is not needed'' @ [10, 10] @
     ascii ''After the tag, briefly explain your reasoning and if search '' @
     ascii ''is needed, suggest a good search query.'' @ [10, 10] @
     ascii ''Examples:'' @ [10] @ ascii ''- '' @ [34] @ ascii ''What'' @ [39] @
     ascii ''s the weather today?'' @ [34] @ ascii '' '' @ [226, 8224, 8217] @
     ascii '' <search>YES</search> Need current weather data. Search: '' @ [34] @
     ascii ''weather today'' @ [34, 10] @ ascii ''- '' @ [34] @
     ascii ''What is Python programming?'' @ [34] @ ascii '' '' @
     [226, 8224, 8217] @
     ascii '' <search>NO</search> General knowledge question about progra'' @
     ascii ''mming.'' @ [10] @ ascii ''- '' @ [34] @ ascii ''Latest AI news'' @
     [34] @ ascii '' '' @ [226, 8224, 8217] @
     ascii '' <search>YES</search> Need current AI developments. Search: '' @
     [34] @ ascii ''latest AI news 2025'' @ [34, 10] @ ascii ''- '' @ [34] @
     ascii ''How are you?'' @ [34] @ ascii '' '' @ [226, 8224, 8217] @
     ascii '' <search>NO</search> Casual greeting, no search needed.''"

definition contextual_prompt :: str where
  "contextual_prompt =
     ascii ''You are a helpful LINE bot assistant. The user asked a quest'' @
     ascii ''ion and I'' @ [39] @
     ascii ''ve gathered some recent web search results for you.'' @ [10, 10] @
     ascii ''Use the search results to provide a helpful, accurate, and c'' @
     ascii ''oncise answer to the user'' @ [39] @ ascii ''s question. '' @ [10] @
     ascii ''Keep your response under 300 characters when possible.'' @ [10] @
     ascii ''If the search results don'' @ [39] @
     ascii ''t fully answer the question, acknowledge what you found and '' @
     ascii ''suggest they search for more specific terms.''"

definition direct_prompt :: str where
  "direct_prompt =
     ascii ''You are a helpful and friendly LINE bot assistant. '' @ [10] @
     ascii ''    Keep your responses concise (under 200 characters when p'' @
     ascii ''ossible) and engaging.'' @ [10] @
     ascii ''    Be helpful, informative, and maintain a conversational t'' @
     ascii ''one.'' @ [10] @ ascii ''    If you don'' @ [39] @
     ascii ''t know something, admit it honestly.''"

definition truncation_hint :: str where
  "truncation_hint =
     ascii ''...'' @ [10, 10, 240, 376, 8217, 161] @
     ascii '' Try more specific search terms for better results!''"

definition fallback_text :: "str \<Rightarrow> str" where
  "fallback_text user_message =
     ascii ''I received your message: '' @ user_message @ [10] @ ascii ''I'' @ [39] @
     ascii ''m experiencing some technical issues. Please try again later.''"

definition no_results_text :: "str \<Rightarrow> str" where
  "no_results_text query =
     ascii ''I couldn'' @ [39] @ ascii ''t find any results for '' @ [39] @ query @ [39] @
     ascii ''. Try a different search term!''"

definition search_error_text :: "str \<Rightarrow> str" where
  "search_error_text query =
     ascii ''Sorry, I encountered an error while searching for '' @ [39] @ query @ [39] @
     ascii ''. Please try again later.''"

definition results_header :: "str \<Rightarrow> str" where
  "results_header query =
     [240, 376, 8221] @ ascii '' Search results for '' @ [39] @ query @ [39] @ ascii '':'' @ [10]"

definition couldnt_find :: str where
  "couldnt_find = ascii ''I couldn'' @ [39] @ ascii ''t find''"

definition context_message :: "str \<Rightarrow> str \<Rightarrow> str" where
  "context_message user_message search_results =
     ascii ''User question: '' @ user_message @ [10, 10] @ ascii ''Search results:'' @ [10] @
     search_results @ [10, 10] @
     ascii ''Please provide a helpful response based on this information.''"

section \<open>External services and configuration\<close>

text \<open>
  Exceptions are values. \<^verbatim>\<open>requests.post\<close> raises a \<^verbatim>\<open>RequestException\<close> (timeout,
  connection), \<^verbatim>\<open>raise_for_status\<close> an \<^verbatim>\<open>HTTPError\<close>, \<^verbatim>\<open>response.json()\<close> a
  \<^verbatim>\<open>JSONDecodeError\<close>, the subscripts of \<^verbatim>\<open>result["choices"][0]["message"]["content"]\<close>
  a \<^verbatim>\<open>KeyError\<close>, \<^verbatim>\<open>IndexError\<close> or \<^verbatim>\<open>TypeError\<close>, and \<^verbatim>\<open>.strip()\<close> on a
  \<^verbatim>\<open>null\<close> content an \<^verbatim>\<open>AttributeError\<close>; the search backend raises its own.
  All of them are subclasses of \<^verbatim>\<open>Exception\<close>.
\<close>

datatype exn =
  RequestException | HTTPError | JSONDecodeError | KeyError | IndexError | TypeError
| AttributeError | DuckDuckGoSearchException

text \<open>
  One result of the search backend: a dictionary read with
  \<^verbatim>\<open>result.get('title', 'No title')\<close>, \<^verbatim>\<open>result.get('body', 'No description')\<close> and
  \<^verbatim>\<open>result.get('href', '')\<close>; a key may be missing, a value that is present is a string.
\<close>

record search_result =
  title :: "str option"
  body :: "str option"
  href :: "str option"

text \<open>
  The calls that leave the process: \<^verbatim>\<open>DDGS().text(query, max_results=n)\<close> and
  \<^verbatim>\<open>requests.post\<close> with a system prompt, a user content and \<^verbatim>\<open>max_tokens\<close>.
  Every function that can make one takes the list of the calls made so far and returns
  it extended, so that a run's external calls can be read off its result.
\<close>

datatype call = DDGS_text str int | Requests_post str str nat

text \<open>
  What the program reads from outside itself:
  \<^item> \<open>OPENROUTER_API_KEY\<close>: the environment variable, \<^verbatim>\<open>None\<close> when unset;
  \<^item> \<open>SEARCH_CONFIG\<close>: the dictionary of \<^verbatim>\<open>search_config.json\<close> (its integer settings);
  \<^item> \<open>str_lower\<close>: \<^verbatim>\<open>str.lower\<close>, whose Unicode tables are not part of the program;
  \<^item> \<open>strftime_now\<close>: \<^verbatim>\<open>datetime.now().strftime("%Y-%m-%d %H:%M:%S")\<close>;
  \<^item> \<open>ddgs_text\<close>: the search backend, \<^verbatim>\<open>list(DDGS().text(query, max_results=n))\<close>,
    which raises or returns a list of results;
  \<^item> \<open>requests_post\<close>: lines 389 to 393 of \<^verbatim>\<open>call_openrouter_api\<close> up to the content
    string: the exception that the request, the status check, the JSON decoding or the
    subscripts raise, or the string \<^verbatim>\<open>result["choices"][0]["message"]["content"]\<close>.
  Both services may answer differently each time: they see the calls made before.
\<close>

record env =
  OPENROUTER_API_KEY :: "str option"
  SEARCH_CONFIG :: "string \<rightharpoonup> (string \<rightharpoonup> int)"
  str_lower :: "str \<Rightarrow> str"
  strftime_now :: str
  ddgs_text :: "call list \<Rightarrow> str \<Rightarrow> int \<Rightarrow> exn + search_result list"
  requests_post :: "call list \<Rightarrow> str \<Rightarrow> str \<Rightarrow> nat \<Rightarrow> exn + str"

section \<open>The completion client\<close>

text \<open>
  \<^verbatim>\<open>
  def call_openrouter_api(system_prompt, user_message, max_tokens=150):
      if not OPENROUTER_API_KEY:
          return None
      ...
      response = requests.post(url, headers=headers, json=data, timeout=15)
      response.raise_for_status()
      result = response.json()
      return result["choices"][0]["message"]["content"].strip()
  \<close>
  Nothing here catches an exception.
\<close>

definition call_openrouter_api ::
  "env \<Rightarrow> str \<Rightarrow> str \<Rightarrow> nat \<Rightarrow> call list \<Rightarrow> (exn + str option) \<times> call list" where
  "call_openrouter_api E system_prompt user_message max_tokens tr =
     (if \<not> truthy (OPENROUTER_API_KEY E) then (Inr None, tr)
      else
        (case requests_post E tr system_prompt user_message max_tokens of
           Inl e \<Rightarrow> (Inl e, tr @ [Requests_post system_prompt user_message max_tokens])
         | Inr content \<Rightarrow>
             (Inr (Some (strip content)),
              tr @ [Requests_post system_prompt user_message max_tokens])))"

definition analyze_search_need ::
  "env \<Rightarrow> str \<Rightarrow> call list \<Rightarrow> (exn + str option) \<times> call list" where
  "analyze_search_need E user_message tr =
     call_openrouter_api E analysis_prompt user_message 100 tr"

text \<open>
  \<^verbatim>\<open>
  def generate_ai_response_http(user_message):
      if not OPENROUTER_API_KEY:
          return None
      ai_message = call_openrouter_api(system_prompt, user_message, max_tokens=150)
      return ai_message
  \<close>
\<close>

definition generate_ai_response_http ::
  "env \<Rightarrow> str \<Rightarrow> call list \<Rightarrow> (exn + str option) \<times> call list" where
  "generate_ai_response_http E user_message tr =
     (if \<not> truthy (OPENROUTER_API_KEY E) then (Inr None, tr)
      else call_openrouter_api E direct_prompt user_message 150 tr)"

text \<open>
  \<^verbatim>\<open>
  def generate_contextual_response(user_message, search_results):
      context_message = f"User question: {user_message}\n\nSearch results:\n{search_results}\n\n..."
      response = call_openrouter_api(system_prompt, context_message, max_tokens=200)
      return response if response else search_results  # Fallback to raw search results
  \<close>
\<close>

definition generate_contextual_response ::
  "env \<Rightarrow> str \<Rightarrow> str \<Rightarrow> call list \<Rightarrow> (exn + str) \<times> call list" where
  "generate_contextual_response E user_message search_results tr =
     (case call_openrouter_api E contextual_prompt
             (context_message user_message search_results) 200 tr of
        (Inl e, tr') \<Rightarrow> (Inl e, tr')
      | (Inr response, tr') \<Rightarrow>
          (Inr (if truthy response then the response else search_results), tr'))"

section \<open>The classifier's answer\<close>

text \<open>
  A literal of a pattern compiled with \<^verbatim>\<open>re.IGNORECASE\<close> matches a character when the
  two have the same lower case; the pattern letter \<^verbatim>\<open>s\<close> also matches the long s
  (U+017F). This is the whole relation for the characters of the two patterns below
  (the letters of \<^verbatim>\<open><search>YES</search>\<close> and \<^verbatim>\<open>Search:\<close>, and their punctuation,
  which matches itself only).
\<close>

definition ascii_lower :: "nat \<Rightarrow> nat" where
  "ascii_lower c = (if 65 \<le> c \<and> c \<le> 90 then c + 32 else c)"

definition ieq :: "nat \<Rightarrow> nat \<Rightarrow> bool" where
  "ieq p c \<longleftrightarrow> ascii_lower c = ascii_lower p \<or> (ascii_lower p = 115 \<and> c = 383)"

text \<open>\<open>imatch pat s\<close>: the literal pattern matches at the start of \<open>s\<close>.\<close>

fun imatch :: "str \<Rightarrow> str \<Rightarrow> bool" where
  "imatch [] s = True"
| "imatch (p # ps) [] = False"
| "imatch (p # ps) (c # cs) = (ieq p c \<and> imatch ps cs)"

text \<open>\<open>isearch pat s\<close>: \<^verbatim>\<open>re.search(pat, s, re.IGNORECASE) is not None\<close>.\<close>

fun isearch :: "str \<Rightarrow> str \<Rightarrow> bool" where
  "isearch pat [] = imatch pat []"
| "isearch pat (c # cs) = (imatch pat (c # cs) \<or> isearch pat cs)"

text \<open>
  \<^verbatim>\<open>
  def should_search(analysis_response):
      if not analysis_response:
          return False
      match = re.search(r'<search>YES</search>', analysis_response, re.IGNORECASE)
      return match is not None
  \<close>
\<close>

definition yes_tag :: str where
  "yes_tag = ascii ''<search>YES</search>''"

definition should_search :: "str option \<Rightarrow> bool" where
  "should_search analysis_response =
     (if \<not> truthy analysis_response then False
      else isearch yes_tag (the analysis_response))"

text \<open>
  The pattern \<^verbatim>\<open>Search:\s*["\']?([^"\'.\n]+)["\']?\<close> of \<^verbatim>\<open>extract_search_query\<close>.
  \<open>query_char\<close> is the class of the group. \<open>query_attempt j r\<close> is the match behind
  \<^verbatim>\<open>Search:\<close> when \<^verbatim>\<open>\s*\<close> takes \<open>j\<close> characters of the rest \<open>r\<close>: first with the
  optional quote taken, then without it; the result is the group, which is greedy.
  \<open>query_tail\<close> backtracks over \<open>j\<close>, the longest whitespace first. The optional
  quote at the end of the pattern changes neither the group nor whether it matches.
\<close>

definition query_char :: "nat \<Rightarrow> bool" where
  "query_char c \<longleftrightarrow> c \<noteq> 34 \<and> c \<noteq> 39 \<and> c \<noteq> 46 \<and> c \<noteq> 10"

definition query_attempt :: "nat \<Rightarrow> str \<Rightarrow> str option" where
  "query_attempt j r =
     (let r1 = drop j r;
          quoted = (case r1 of [] \<Rightarrow> []
                    | c # cs \<Rightarrow> if c = 34 \<or> c = 39 then takeWhile query_char cs else []);
          plain = takeWhile query_char r1
      in if quoted \<noteq> [] then Some quoted
         else if plain \<noteq> [] then Some plain
         else None)"

fun query_tail :: "nat \<Rightarrow> str \<Rightarrow> str option" where
  "query_tail 0 r = query_attempt 0 r"
| "query_tail (Suc j) r =
     (case query_attempt (Suc j) r of Some g \<Rightarrow> Some g | None \<Rightarrow> query_tail j r)"

definition search_keyword :: str where
  "search_keyword = ascii ''Search:''"

definition query_here :: "str \<Rightarrow> str option" where
  "query_here s =
     (if imatch search_keyword s
      then query_tail (length (takeWhile isspace (drop 7 s))) (drop 7 s)
      else None)"

text \<open>\<^verbatim>\<open>re.search\<close>: the leftmost position where the pattern matches; its group 1.\<close>

fun re_search_query :: "str \<Rightarrow> str option" where
  "re_search_query [] = None"
| "re_search_query (c # cs) =
     (case query_here (c # cs) of Some g \<Rightarrow> Some g | None \<Rightarrow> re_search_query cs)"

text \<open>
  \<^verbatim>\<open>
  def extract_search_query(analysis_response, user_message):
      if not analysis_response:
          return user_message
      search_match = re.search(r'Search:\s*["\']?([^"\'.\n]+)["\']?', analysis_response, re.IGNORECASE)
      if search_match:
          suggested_query = search_match.group(1).strip()
          if suggested_query:
              return suggested_query
      return user_message
  \<close>
\<close>

definition extract_search_query :: "str option \<Rightarrow> str \<Rightarrow> str" where
  "extract_search_query analysis_response user_message =
     (if \<not> truthy analysis_response then user_message
      else
        (case re_search_query (the analysis_response) of
           Some g \<Rightarrow> if strip g \<noteq> [] then strip g else user_message
         | None \<Rightarrow> user_message))"

section \<open>perform\_search\<close>

text \<open>
  One numbered entry of the rendering:
  \<^verbatim>\<open>
  title = result.get('title', 'No title')[:80]
  snippet = result.get('body', 'No description')[:summary_length]
  snippet = clean_text(snippet)
  response_parts.append(f"{i}. {title}\n{snippet}...\n")
  \<close>
\<close>

definition format_entry :: "int \<Rightarrow> nat \<Rightarrow> search_result \<Rightarrow> str" where
  "format_entry summary_length i result =
     (let title' = take 80 (case title result of None \<Rightarrow> ascii ''No title'' | Some t \<Rightarrow> t);
          snippet = slice_to summary_length
                      (case body result of None \<Rightarrow> ascii ''No description'' | Some b \<Rightarrow> b);
          snippet' = clean_text (Some snippet)
      in str_of_nat i @ ascii ''. '' @ title' @ [10] @ snippet' @ ascii ''...'' @ [10])"

text \<open>\<^verbatim>\<open>for i, result in enumerate(results[:max_results], 1)\<close>, from index \<open>i\<close> on.\<close>

fun format_entries :: "int \<Rightarrow> nat \<Rightarrow> search_result list \<Rightarrow> str list" where
  "format_entries summary_length i [] = []"
| "format_entries summary_length i (r # rs) =
     format_entry summary_length i r # format_entries summary_length (Suc i) rs"

text \<open>\<^verbatim>\<open>response = '\n'.join(response_parts)\<close>, before the cap on its length.\<close>

definition raw_rendering :: "int \<Rightarrow> int \<Rightarrow> str \<Rightarrow> search_result list \<Rightarrow> str" where
  "raw_rendering max_results summary_length query results =
     join [10] (results_header query #
                format_entries summary_length 1 (slice_to max_results results))"

text \<open>
  \<^verbatim>\<open>
  # Limit total response length for LINE (max ~2000 chars)
  if len(response) > 1800:
      response = response[:1800] + "...\n\n(pictograph) Try more specific search terms for better results!"
  \<close>
  The appended literal is \<open>truncation_hint\<close>.
\<close>

definition cap_length :: "str \<Rightarrow> str" where
  "cap_length response =
     (if length response > 1800 then take 1800 response @ truncation_hint else response)"

text \<open>
  \<^verbatim>\<open>
  def perform_search(query, topic=None):
      try:
          settings = SEARCH_CONFIG.get('search_settings', {})
          max_results = settings.get('max_results', 3)
          summary_length = settings.get('summary_length', 300)
          ddgs = DDGS()
          results = list(ddgs.text(query, max_results=max_results))
          if not results:
              return f"I couldn't find any results for '{query}'. Try a different search term!"
          ...
          return response
      except Exception as e:
          return f"Sorry, I encountered an error while searching for '{query}'. Please try again later."
  \<close>
  The function returns a string whatever the backend does.
\<close>

definition get_max_results :: "env \<Rightarrow> int" where
  "get_max_results E =
     (case (case SEARCH_CONFIG E ''search_settings'' of None \<Rightarrow> Map.empty | Some d \<Rightarrow> d)
             ''max_results'' of
        None \<Rightarrow> 3 | Some n \<Rightarrow> n)"

definition get_summary_length :: "env \<Rightarrow> int" where
  "get_summary_length E =
     (case (case SEARCH_CONFIG E ''search_settings'' of None \<Rightarrow> Map.empty | Some d \<Rightarrow> d)
             ''summary_length'' of
        None \<Rightarrow> 300 | Some n \<Rightarrow> n)"

definition perform_search :: "env \<Rightarrow> str \<Rightarrow> call list \<Rightarrow> str \<times> call list" where
  "perform_search E query tr =
     (let max_results = get_max_results E;
          summary_length = get_summary_length E
      in (case ddgs_text E tr query max_results of
            Inl e \<Rightarrow> search_error_text query
          | Inr results \<Rightarrow>
              if results = [] then no_results_text query
              else cap_length (raw_rendering max_results summary_length query results),
          tr @ [DDGS_text query max_results]))"

section \<open>generate\_response\<close>

text \<open>
  The body of the \<^verbatim>\<open>try\<close> block of \<^verbatim>\<open>generate_response\<close>:
  \<^verbatim>\<open>
  search_decision = analyze_search_need(user_message)
  if should_search(search_decision):
      search_query = extract_search_query(search_decision, user_message)
      search_results = perform_search(search_query)
      if search_results and not search_results.startswith("I couldn't find"):
          return generate_contextual_response(user_message, search_results)
      else:
          # If search failed, fall back to direct AI response
          return generate_ai_response_http(user_message)
  else:
      return generate_ai_response_http(user_message)
  \<close>
  \<open>Inl\<close> is an exception that leaves the block.
\<close>

definition usable_results :: "str \<Rightarrow> bool" where
  "usable_results search_results \<longleftrightarrow>
     search_results \<noteq> [] \<and> \<not> startswith search_results couldnt_find"

definition ai_try_block :: "env \<Rightarrow> str \<Rightarrow> call list \<Rightarrow> (exn + str option) \<times> call list" where
  "ai_try_block E user_message tr =
     (case analyze_search_need E user_message tr of
        (Inl e, tr1) \<Rightarrow> (Inl e, tr1)
      | (Inr search_decision, tr1) \<Rightarrow>
          if should_search search_decision then
            (let search_query = extract_search_query search_decision user_message
             in case perform_search E search_query tr1 of
                  (search_results, tr2) \<Rightarrow>
                    if usable_results search_results then
                      (case generate_contextual_response E user_message search_results tr2 of
                         (Inl e, tr3) \<Rightarrow> (Inl e, tr3)
                       | (Inr r, tr3) \<Rightarrow> (Inr (Some r), tr3))
                    else generate_ai_response_http E user_message tr2)
          else generate_ai_response_http E user_message tr1)"

text \<open>
  \<^verbatim>\<open>
  def generate_response(user_message):
      user_message_lower = user_message.lower()
      if 'hello' in user_message_lower or 'hi' in user_message_lower:
          return "Hello! ..."
      elif 'help' in user_message_lower:
          return "I'm a LINE bot ..."
      elif 'time' in user_message_lower:
          return f"Current time: {current_time}"
      if user_message_lower.startswith('search '):
          query = user_message[7:].strip()
          search_results = perform_search(query)
          if search_results and not search_results.startswith("I couldn't find"):
              return generate_contextual_response(user_message, search_results)
          else:
              return search_results or "Sorry, I couldn't find any relevant information."
      if OPENROUTER_API_KEY:
          try:
              ...
          except Exception as e:
              if OPENROUTER_API_KEY:
                  return generate_ai_response_http(user_message)
      return f"I received your message: {user_message}\nI'm experiencing some technical issues. ..."
  \<close>
  The result is the value returned (\<open>Inr\<close>; a Python \<^verbatim>\<open>None\<close> is \<open>None\<close>) or the
  exception that reaches the caller (\<open>Inl\<close>), with the external calls made.
\<close>

definition generate_response ::
  "env \<Rightarrow> str \<Rightarrow> call list \<Rightarrow> (exn + str option) \<times> call list" where
  "generate_response E user_message tr =
     (let user_message_lower = str_lower E user_message in
      if contains user_message_lower (ascii ''hello'') \<or> contains user_message_lower (ascii ''hi'')
      then (Inr (Some greeting_text), tr)
      else if contains user_message_lower (ascii ''help'')
      then (Inr (Some help_text), tr)
      else if contains user_message_lower (ascii ''time'')
      then (Inr (Some (ascii ''Current time: '' @ strftime_now E)), tr)
      else if startswith user_message_lower (ascii ''search '')
      then
        (let query = strip (drop 7 user_message)
         in case perform_search E query tr of
              (search_results, tr1) \<Rightarrow>
                if usable_results search_results then
                  (case generate_contextual_response E user_message search_results tr1 of
                     (Inl e, tr2) \<Rightarrow> (Inl e, tr2)
                   | (Inr r, tr2) \<Rightarrow> (Inr (Some r), tr2))
                else
                  (Inr (Some (if search_results \<noteq> [] then search_results
                              else ascii ''Sorry, I couldn'' @ [39] @
                                   ascii ''t find any relevant information.'')), tr1))
      else if truthy (OPENROUTER_API_KEY E)
      then
        (case ai_try_block E user_message tr of
           (Inr r, tr1) \<Rightarrow> (Inr r, tr1)
         | (Inl e, tr1) \<Rightarrow>
             if truthy (OPENROUTER_API_KEY E) then generate_ai_response_http E user_message tr1
             else (Inr (Some (fallback_text user_message)), tr1))
      else (Inr (Some (fallback_text user_message)), tr))"

section \<open>An environment to run the program in\<close>

text \<open>
  \<open>lower_ascii\<close> is \<^verbatim>\<open>str.lower\<close> on ASCII strings. \<open>test_env\<close> has an API key, no
  search configuration, a backend that finds nothing and a completion service that
  answers with an empty content; the examples below change one service at a time.
\<close>

definition lower_ascii :: "str \<Rightarrow> str" where
  "lower_ascii = map ascii_lower"

definition test_env :: env where
  "test_env = \<lparr>
     OPENROUTER_API_KEY = Some (ascii ''sk-test''),
     SEARCH_CONFIG = Map.empty,
     str_lower = lower_ascii,
     strftime_now = ascii ''2025-01-01 00:00:00'',
     ddgs_text = (\<lambda>tr query n. Inr []),
     requests_post = (\<lambda>tr system_prompt content max_tokens. Inr [])\<rparr>"

definition one_result :: search_result where
  "one_result = \<lparr>title = Some (ascii ''Cats''), body = Some (ascii ''Cats are <b>small</b> cats.''),
     href = Some (ascii ''https://example.org/cats'')\<rparr>"

definition found_env :: env where
  "found_env = test_env\<lparr>ddgs_text := (\<lambda>tr query n. Inr [one_result])\<rparr>"

definition no_key_env :: env where
  "no_key_env = found_env\<lparr>OPENROUTER_API_KEY := None\<rparr>"

text \<open>Further environments: the services fail or answer in the ways the examples need.\<close>

definition post_fails_env :: env where
  "post_fails_env = found_env\<lparr>requests_post :=
     (\<lambda>tr system_prompt content max_tokens. Inl RequestException)\<rparr>"

definition search_down_env :: env where
  "search_down_env = test_env\<lparr>
     ddgs_text := (\<lambda>tr query n. Inl DuckDuckGoSearchException),
     requests_post :=
       (\<lambda>tr system_prompt content max_tokens.
          if max_tokens = 100 then Inr (ascii ''<search>YES</search> Need current news.'')
          else Inr [])\<rparr>"

definition weather_env :: env where
  "weather_env = found_env\<lparr>requests_post :=
     (\<lambda>tr system_prompt content max_tokens.
        if max_tokens = 100
        then Inr (ascii ''<search>YES</search> Need current weather data. Search: '' @ [34] @
                  ascii ''weather today'' @ [34])
        else Inr (ascii ''Sunny.''))\<rparr>"

definition both_tags_response :: str where
  "both_tags_response =
     ascii ''<search>NO</search> General knowledge. I answer <search>YES</search> for news only.''"

definition both_tags_env :: env where
  "both_tags_env = test_env\<lparr>requests_post :=
     (\<lambda>tr system_prompt content max_tokens.
        if max_tokens = 100 then Inr both_tags_response else Inr (ascii ''A joke.''))\<rparr>"

section \<open>Notions used in the properties\<close>

text \<open>None of the four canned commands occurs in the lower-cased message.\<close>

definition no_command :: "env \<Rightarrow> str \<Rightarrow> bool" where
  "no_command E user_message \<longleftrightarrow>
     \<not> contains (str_lower E user_message) (ascii ''hello'') \<and>
     \<not> contains (str_lower E user_message) (ascii ''hi'') \<and>
     \<not> contains (str_lower E user_message) (ascii ''help'') \<and>
     \<not> contains (str_lower E user_message) (ascii ''time'')"

text \<open>The calls of a run that went to the search backend, in order.\<close>

fun is_search :: "call \<Rightarrow> bool" where
  "is_search (DDGS_text query n) = True"
| "is_search (Requests_post system_prompt content max_tokens) = False"

definition search_calls :: "call list \<Rightarrow> call list" where
  "search_calls tr = filter is_search tr"

text \<open>A string is trimmed when it neither starts nor ends with whitespace.\<close>

definition trimmed :: "str \<Rightarrow> bool" where
  "trimmed s \<longleftrightarrow> s = [] \<or> (\<not> isspace (hd s) \<and> \<not> isspace (last s))"

text \<open>
  \<open>kw_absent pre s\<close>: in the string \<open>pre @ s\<close>, the keyword \<^verbatim>\<open>Search:\<close> (in any
  case) starts at none of the positions of \<open>pre\<close>.
\<close>

fun kw_absent :: "str \<Rightarrow> str \<Rightarrow> bool" where
  "kw_absent [] s = True"
| "kw_absent (c # pre) s = (\<not> imatch search_keyword (c # pre @ s) \<and> kw_absent pre s)"

text \<open>
  What a second run of \<open>clean_text\<close> would still change. \<open>entity_at s\<close> and
  \<open>tag_at s\<close>: the entity pattern, the tag pattern, matches at the start of \<open>s\<close>.
  \<open>entity_free s\<close>: the entity pattern matches nowhere in \<open>s\<close>. \<open>single_spaced s\<close>:
  every whitespace character of \<open>s\<close> is a space that is followed by a character which
  is not whitespace, or by the end. \<open>settled s\<close>: \<open>s\<close> is trimmed, single-spaced and
  free of entities.
\<close>

definition entity_at :: "str \<Rightarrow> bool" where
  "entity_at s \<longleftrightarrow>
     (case s of [] \<Rightarrow> False
      | c # cs \<Rightarrow> c = 38 \<and> takeWhile entity_char cs \<noteq> [] \<and>
          dropWhile entity_char cs \<noteq> [] \<and> hd (dropWhile entity_char cs) = 59)"

definition tag_at :: "str \<Rightarrow> bool" where
  "tag_at s \<longleftrightarrow>
     (case s of [] \<Rightarrow> False
      | c # cs \<Rightarrow> c = 60 \<and> takeWhile (\<lambda>d. d \<noteq> 62) cs \<noteq> [] \<and>
          dropWhile (\<lambda>d. d \<noteq> 62) cs \<noteq> [])"

fun entity_free :: "str \<Rightarrow> bool" where
  "entity_free [] = True"
| "entity_free (c # cs) = (\<not> entity_at (c # cs) \<and> entity_free cs)"

fun single_spaced :: "str \<Rightarrow> bool" where
  "single_spaced [] = True"
| "single_spaced [c] = (if isspace c then c = 32 else True)"
| "single_spaced (c # d # cs) =
     ((if isspace c then c = 32 \<and> \<not> isspace d else True) \<and> single_spaced (d # cs))"

definition settled :: "str \<Rightarrow> bool" where
  "settled y \<longleftrightarrow> trimmed y \<and> single_spaced y \<and> entity_free y"

section \<open>Substrings\<close>

lemma startswith_iff: "startswith s p \<longleftrightarrow> (\<exists>b. s = p @ b)"
proof
  assume "startswith s p"
  then have "s = p @ drop (length p) s"
    by (metis append_take_drop_id startswith_def)
  then show "\<exists>b. s = p @ b" ..
next
  assume "\<exists>b. s = p @ b"
  then show "startswith s p" by (auto simp: startswith_def)
qed

lemma contains_iff: "contains s p \<longleftrightarrow> (\<exists>a b. s = a @ p @ b)"
proof (induction s)
  case Nil
  show ?case by auto
next
  case (Cons c cs)
  show ?case
  proof
    assume "contains (c # cs) p"
    then consider "startswith (c # cs) p" | "contains cs p" by auto
    then show "\<exists>a b. c # cs = a @ p @ b"
    proof cases
      case 1
      then obtain b where "c # cs = p @ b" by (auto simp: startswith_iff)
      then have "c # cs = [] @ p @ b" by simp
      then show ?thesis by blast
    next
      case 2
      with Cons.IH obtain a b where "cs = a @ p @ b" by blast
      then have "c # cs = (c # a) @ p @ b" by simp
      then show ?thesis by blast
    qed
  next
    assume "\<exists>a b. c # cs = a @ p @ b"
    then obtain a b where ab: "c # cs = a @ p @ b" by blast
    show "contains (c # cs) p"
    proof (cases a)
      case Nil
      with ab have "startswith (c # cs) p" by (auto simp: startswith_iff)
      then show ?thesis by simp
    next
      case (Cons d ds)
      with ab have "cs = ds @ p @ b" by simp
      with Cons.IH have "contains cs p" by blast
      then show ?thesis by simp
    qed
  qed
qed

section \<open>Properties of clean\_text\<close>

lemma isspace_32: "isspace 32"
  by (simp add: isspace_def)

lemma sub_entities_id: "38 \<notin> set s \<Longrightarrow> sub_entities s = s"
  by (induction s) auto

lemma sub_tags_id: "60 \<notin> set s \<Longrightarrow> sub_tags s = s"
  by (induction s) auto

lemma set_sub_ws: "set (sub_ws s) \<subseteq> insert 32 (set s)"
proof (induction s rule: sub_ws.induct)
  case 1
  show ?case by simp
next
  case (2 c cs)
  show ?case
  proof (cases "isspace c")
    case True
    have "set (dropWhile isspace cs) \<subseteq> set cs" by (auto dest: set_dropWhileD)
    with True "2.IH"(1) show ?thesis by auto
  next
    case False
    with "2.IH"(2) show ?thesis by auto
  qed
qed

lemma set_strip: "set (strip s) \<subseteq> set s"
  by (auto simp: strip_def lstrip_def rstrip_def dest!: set_dropWhileD)


lemma dropWhile_snoc_keep: "\<not> P c \<Longrightarrow> \<exists>ys. dropWhile P (xs @ [c]) = ys @ [c]"
  by (induction xs) auto

lemma rstrip_Cons_keep:
  assumes "\<not> isspace c"
  shows "\<exists>t. rstrip (c # cs) = c # t"
proof -
  from dropWhile_snoc_keep [of isspace c "rev cs", OF assms] obtain ys
    where "dropWhile isspace (rev cs @ [c]) = ys @ [c]" by blast
  then show ?thesis by (simp add: rstrip_def)
qed

lemma rstrip_last: "rstrip s \<noteq> [] \<Longrightarrow> \<not> isspace (last (rstrip s))"
  by (simp add: rstrip_def last_rev hd_dropWhile)

lemma strip_trimmed: "trimmed (strip s)"
proof (cases "lstrip s")
  case Nil
  then show ?thesis by (simp add: trimmed_def strip_def rstrip_def)
next
  case (Cons c cs)
  then have "\<not> isspace c"
    using hd_dropWhile [of isspace s] by (simp add: lstrip_def)
  from rstrip_Cons_keep [OF this] obtain t where t: "rstrip (c # cs) = c # t" by blast
  with rstrip_last [of "c # cs"] have "\<not> isspace (last (c # t))" by simp
  with t Cons \<open>\<not> isspace c\<close> show ?thesis by (simp add: trimmed_def strip_def)
qed

lemma strip_id: "trimmed s \<Longrightarrow> strip s = s"
proof (cases s)
  case Nil
  then show ?thesis by (simp add: strip_def lstrip_def rstrip_def)
next
  case (Cons c cs)
  assume "trimmed s"
  with Cons have h: "\<not> isspace c" and l: "\<not> isspace (last (c # cs))"
    by (simp_all add: trimmed_def)
  from l have "\<not> isspace (hd (rev (c # cs)))" unfolding hd_rev .
  then have "dropWhile isspace (rev (c # cs)) = rev (c # cs)"
    by (simp only: dropWhile_eq_self_iff) simp
  with h Cons show ?thesis by (simp add: strip_def lstrip_def rstrip_def)
qed

lemma dropWhile_keeps_last:
  "xs \<noteq> [] \<Longrightarrow> \<not> P (last xs) \<Longrightarrow> dropWhile P xs \<noteq> [] \<and> last (dropWhile P xs) = last xs"
  by (induction xs) (auto split: if_splits)

lemma sub_ws_last:
  "s \<noteq> [] \<Longrightarrow> \<not> isspace (last s) \<Longrightarrow> sub_ws s \<noteq> [] \<and> last (sub_ws s) = last s"
proof (induction s rule: sub_ws.induct)
  case 1
  then show ?case by simp
next
  case (2 c cs)
  show ?case
  proof (cases "isspace c")
    case True
    with "2.prems" have cs: "cs \<noteq> []" "\<not> isspace (last cs)" by (auto split: if_splits)
    from dropWhile_keeps_last [of cs isspace, OF cs]
    have d: "dropWhile isspace cs \<noteq> []" "last (dropWhile isspace cs) = last cs" by simp_all
    with "2.IH"(1) [OF True] cs
    have "sub_ws (dropWhile isspace cs) \<noteq> [] \<and> last (sub_ws (dropWhile isspace cs)) = last cs"
      by simp
    with True cs show ?thesis by simp
  next
    case False
    show ?thesis
    proof (cases "cs = []")
      case True
      with False show ?thesis by simp
    next
      case ne: False
      with "2.prems" have "\<not> isspace (last cs)" by simp
      with "2.IH"(2) [OF False ne] False ne show ?thesis by simp
    qed
  qed
qed

lemma sub_ws_hd: "s = [] \<or> \<not> isspace (hd s) \<Longrightarrow> sub_ws s = [] \<or> \<not> isspace (hd (sub_ws s))"
  by (cases s) auto

lemma sub_ws_trimmed: "trimmed s \<Longrightarrow> trimmed (sub_ws s)"
proof (cases "s = []")
  case True
  then show ?thesis by (simp add: trimmed_def)
next
  case False
  assume "trimmed s"
  with False have h: "\<not> isspace (hd s)" and l: "\<not> isspace (last s)"
    by (simp_all add: trimmed_def)
  from sub_ws_last [OF False l] sub_ws_hd [of s] h l show ?thesis
    by (simp add: trimmed_def)
qed

lemma sub_ws_idem: "sub_ws (sub_ws s) = sub_ws s"
proof (induction s rule: sub_ws.induct)
  case 1
  show ?case by simp
next
  case (2 c cs)
  show ?case
  proof (cases "isspace c")
    case True
    let ?d = "dropWhile isspace cs"
    have "?d = [] \<or> \<not> isspace (hd ?d)" using hd_dropWhile [of isspace cs] by blast
    from sub_ws_hd [OF this] have "dropWhile isspace (sub_ws ?d) = sub_ws ?d"
      by (simp only: dropWhile_eq_self_iff)
    with True "2.IH"(1) show ?thesis by (simp add: isspace_32)
  next
    case False
    with "2.IH"(2) show ?thesis by simp
  qed
qed

lemma normalise_idem: "sub_ws (strip (sub_ws (strip s))) = sub_ws (strip s)"
  by (simp add: strip_id sub_ws_trimmed strip_trimmed sub_ws_idem)

lemma clean_text_plain:
  assumes "38 \<notin> set x" "60 \<notin> set x"
  shows "clean_text (Some x) = sub_ws (strip x)"
proof (cases "x = []")
  case True
  then show ?thesis by (simp add: clean_text_def strip_def lstrip_def rstrip_def)
next
  case False
  have "set (sub_ws (strip x)) \<subseteq> insert 32 (set x)"
    using set_sub_ws [of "strip x"] set_strip [of x] by auto
  with assms have "38 \<notin> set (sub_ws (strip x))" "60 \<notin> set (sub_ws (strip x))" by auto
  with False show ?thesis by (simp add: clean_text_def sub_entities_id sub_tags_id)
qed

text \<open>
  A string without \<^verbatim>\<open>&\<close> and \<^verbatim>\<open><\<close> is only trimmed and single-spaced, and
  cleaning it twice is the same as cleaning it once.
\<close>

lemma clean_text_idempotent_plain:
  "clean_text None = [] \<and> clean_text (Some []) = [] \<and>
   (38 \<notin> set x \<and> 60 \<notin> set x \<longrightarrow>
      clean_text (Some (clean_text (Some x))) = clean_text (Some x))"
proof (intro conjI impI)
  show "clean_text None = []" by (simp add: clean_text_def)
  show "clean_text (Some []) = []" by (simp add: clean_text_def)
  assume a: "38 \<notin> set x \<and> 60 \<notin> set x"
  then have c: "clean_text (Some x) = sub_ws (strip x)" by (simp add: clean_text_plain)
  have "set (sub_ws (strip x)) \<subseteq> insert 32 (set x)"
    using set_sub_ws [of "strip x"] set_strip [of x] by auto
  with a have "38 \<notin> set (sub_ws (strip x))" "60 \<notin> set (sub_ws (strip x))" by auto
  then have "clean_text (Some (sub_ws (strip x))) = sub_ws (strip (sub_ws (strip x)))"
    by (rule clean_text_plain)
  with c show "clean_text (Some (clean_text (Some x))) = clean_text (Some x)"
    by (simp add: normalise_idem)
qed

text \<open>
  Each pass only shortens its input or leaves its length; the entity pass and the tag
  pass leave the length only where they change nothing. The tag pass leaves no tag
  behind: a \<^verbatim>\<open><\<close> that it copies is followed by \<^verbatim>\<open>>\<close> or by no \<^verbatim>\<open>>\<close> at all, before
  the pass and after it.
\<close>

lemma length_sub_ws: "length (sub_ws s) \<le> length s"
proof (induction s rule: sub_ws.induct)
  case 1
  show ?case by simp
next
  case (2 c cs)
  show ?case
  proof (cases "isspace c")
    case True
    with "2.IH"(1) have "length (sub_ws (dropWhile isspace cs)) \<le> length (dropWhile isspace cs)"
      by simp
    also have "\<dots> \<le> length cs" by (rule length_dropWhile_le)
    finally show ?thesis using True by simp
  next
    case False
    with "2.IH"(2) show ?thesis by simp
  qed
qed

lemma length_tl_dropWhile: "length (tl (dropWhile P cs)) \<le> length cs"
  using length_dropWhile_le [of P cs] by simp

lemma sub_entities_Cons:
  "sub_entities (c # cs) =
     (if entity_at (c # cs) then sub_entities (tl (dropWhile entity_char cs))
      else c # sub_entities cs)"
  by (simp add: entity_at_def)

lemma length_sub_entities: "length (sub_entities s) \<le> length s"
proof (induction s rule: length_induct)
  case (1 s)
  show ?case
  proof (cases s)
    case Nil
    then show ?thesis by simp
  next
    case (Cons c cs)
    show ?thesis
    proof (cases "entity_at (c # cs)")
      case True
      let ?r = "tl (dropWhile entity_char cs)"
      have r: "length ?r \<le> length cs" by (rule length_tl_dropWhile)
      with Cons have "length ?r < length s" by simp
      with 1 have "length (sub_entities ?r) \<le> length ?r" by blast
      with r True Cons show ?thesis by (simp add: sub_entities_Cons del: sub_entities.simps)
    next
      case False
      from Cons 1 have "length (sub_entities cs) \<le> length cs" by simp
      with False Cons show ?thesis by (simp add: sub_entities_Cons del: sub_entities.simps)
    qed
  qed
qed

lemma sub_entities_hit_shorter:
  "entity_at (c # cs) \<Longrightarrow> length (sub_entities (c # cs)) \<le> length cs"
  using length_sub_entities [of "tl (dropWhile entity_char cs)"]
        length_tl_dropWhile [of entity_char cs]
  by (simp add: sub_entities_Cons del: sub_entities.simps)

lemma sub_entities_fix_iff: "sub_entities s = s \<longleftrightarrow> entity_free s"
proof (induction s)
  case Nil
  show ?case by simp
next
  case (Cons c cs)
  show ?case
  proof (cases "entity_at (c # cs)")
    case True
    from sub_entities_hit_shorter [OF True]
    have "length (sub_entities (c # cs)) \<noteq> length (c # cs)" by simp
    then have "sub_entities (c # cs) \<noteq> c # cs" by metis
    with True show ?thesis by (simp del: sub_entities.simps)
  next
    case False
    with Cons.IH show ?thesis by (simp add: sub_entities_Cons del: sub_entities.simps)
  qed
qed

lemma sub_entities_same_length: "length (sub_entities s) = length s \<Longrightarrow> sub_entities s = s"
proof (induction s)
  case Nil
  show ?case by simp
next
  case (Cons c cs)
  show ?case
  proof (cases "entity_at (c # cs)")
    case True
    from sub_entities_hit_shorter [OF True] Cons.prems show ?thesis by simp
  next
    case False
    with Cons show ?thesis by (simp add: sub_entities_Cons del: sub_entities.simps)
  qed
qed

lemma sub_tags_Cons:
  "sub_tags (c # cs) =
     (if tag_at (c # cs) then sub_tags (tl (dropWhile (\<lambda>d. d \<noteq> 62) cs))
      else c # sub_tags cs)"
  by (simp add: tag_at_def)

lemma length_sub_tags: "length (sub_tags s) \<le> length s"
proof (induction s rule: length_induct)
  case (1 s)
  show ?case
  proof (cases s)
    case Nil
    then show ?thesis by simp
  next
    case (Cons c cs)
    show ?thesis
    proof (cases "tag_at (c # cs)")
      case True
      let ?r = "tl (dropWhile (\<lambda>d. d \<noteq> 62) cs)"
      have r: "length ?r \<le> length cs" by (rule length_tl_dropWhile)
      with Cons have "length ?r < length s" by simp
      with 1 have "length (sub_tags ?r) \<le> length ?r" by blast
      with r True Cons show ?thesis by (simp add: sub_tags_Cons del: sub_tags.simps)
    next
      case False
      from Cons 1 have "length (sub_tags cs) \<le> length cs" by simp
      with False Cons show ?thesis by (simp add: sub_tags_Cons del: sub_tags.simps)
    qed
  qed
qed

lemma sub_tags_hit_shorter:
  "tag_at (c # cs) \<Longrightarrow> length (sub_tags (c # cs)) \<le> length cs"
  using length_sub_tags [of "tl (dropWhile (\<lambda>d. d \<noteq> 62) cs)"]
        length_tl_dropWhile [of "\<lambda>d. d \<noteq> 62" cs]
  by (simp add: sub_tags_Cons del: sub_tags.simps)

lemma sub_tags_same_length: "length (sub_tags s) = length s \<Longrightarrow> sub_tags s = s"
proof (induction s)
  case Nil
  show ?case by simp
next
  case (Cons c cs)
  show ?case
  proof (cases "tag_at (c # cs)")
    case True
    from sub_tags_hit_shorter [OF True] Cons.prems show ?thesis by simp
  next
    case False
    with Cons show ?thesis by (simp add: sub_tags_Cons del: sub_tags.simps)
  qed
qed

lemma set_tl_dropWhile: "set (tl (dropWhile P cs)) \<subseteq> set cs"
proof
  fix x
  assume "x \<in> set (tl (dropWhile P cs))"
  then have "x \<in> set (dropWhile P cs)" by (cases "dropWhile P cs") auto
  then show "x \<in> set cs" by (rule set_dropWhileD)
qed

lemma set_sub_tags: "set (sub_tags s) \<subseteq> set s"
proof (induction s rule: length_induct)
  case (1 s)
  show ?case
  proof (cases s)
    case Nil
    then show ?thesis by simp
  next
    case (Cons c cs)
    show ?thesis
    proof (cases "tag_at (c # cs)")
      case True
      let ?r = "tl (dropWhile (\<lambda>d. d \<noteq> 62) cs)"
      have "length ?r \<le> length cs" by (rule length_tl_dropWhile)
      with Cons have "length ?r < length s" by simp
      with 1 have "set (sub_tags ?r) \<subseteq> set ?r" by blast
      also have "\<dots> \<subseteq> set cs" by (rule set_tl_dropWhile)
      finally have "set (sub_tags ?r) \<subseteq> set cs" .
      with True Cons show ?thesis by (auto simp add: sub_tags_Cons simp del: sub_tags.simps)
    next
      case False
      from Cons 1 have "set (sub_tags cs) \<subseteq> set cs" by simp
      with False Cons show ?thesis by (auto simp add: sub_tags_Cons simp del: sub_tags.simps)
    qed
  qed
qed

lemma no_tag_after_pass:
  assumes "\<not> tag_at (c # cs)"
  shows "\<not> tag_at (c # sub_tags cs)"
proof (cases "c = 60")
  case False
  then show ?thesis by (simp add: tag_at_def)
next
  case True
  with assms have "takeWhile (\<lambda>d. d \<noteq> 62) cs = [] \<or> 62 \<notin> set cs"
    by (auto simp: tag_at_def)
  then show ?thesis
  proof
    assume "takeWhile (\<lambda>d. d \<noteq> 62) cs = []"
    then have "cs = [] \<or> hd cs = 62" by (auto simp: takeWhile_eq_Nil_iff)
    then have "takeWhile (\<lambda>d. d \<noteq> 62) (sub_tags cs) = []" by (cases cs) auto
    then show ?thesis by (simp add: tag_at_def)
  next
    assume "62 \<notin> set cs"
    with set_sub_tags [of cs] have "62 \<notin> set (sub_tags cs)" by auto
    then show ?thesis by (simp add: tag_at_def)
  qed
qed

lemma sub_tags_idem: "sub_tags (sub_tags s) = sub_tags s"
proof (induction s rule: length_induct)
  case (1 s)
  show ?case
  proof (cases s)
    case Nil
    then show ?thesis by simp
  next
    case (Cons c cs)
    show ?thesis
    proof (cases "tag_at (c # cs)")
      case True
      let ?r = "tl (dropWhile (\<lambda>d. d \<noteq> 62) cs)"
      have "length ?r \<le> length cs" by (rule length_tl_dropWhile)
      with Cons have "length ?r < length s" by simp
      with 1 have "sub_tags (sub_tags ?r) = sub_tags ?r" by blast
      with True Cons show ?thesis by (simp add: sub_tags_Cons del: sub_tags.simps)
    next
      case False
      from no_tag_after_pass [OF False]
      have a: "sub_tags (c # sub_tags cs) = c # sub_tags (sub_tags cs)"
        by (simp add: sub_tags_Cons del: sub_tags.simps)
      from Cons 1 have "sub_tags (sub_tags cs) = sub_tags cs" by simp
      with a False Cons show ?thesis by (simp add: sub_tags_Cons del: sub_tags.simps)
    qed
  qed
qed

lemma dropWhile_same_length: "length (dropWhile P xs) = length xs \<Longrightarrow> dropWhile P xs = xs"
proof -
  assume a: "length (dropWhile P xs) = length xs"
  have "length (takeWhile P xs) + length (dropWhile P xs) = length xs"
    by (metis length_append takeWhile_dropWhile_id)
  with a have "takeWhile P xs = []" by simp
  then show ?thesis by (metis append_Nil takeWhile_dropWhile_id)
qed

lemma length_strip: "length (strip s) \<le> length s"
proof -
  have "length (strip s) \<le> length (lstrip s)"
    using length_dropWhile_le [of isspace "rev (lstrip s)"] by (simp add: strip_def rstrip_def)
  also have "\<dots> \<le> length s" by (simp add: lstrip_def length_dropWhile_le)
  finally show ?thesis .
qed

lemma strip_fix_iff: "strip s = s \<longleftrightarrow> trimmed s"
  using strip_id [of s] strip_trimmed [of s] by auto

lemma sub_ws_fix_iff: "sub_ws s = s \<longleftrightarrow> single_spaced s"
proof (induction s rule: single_spaced.induct)
  case 1
  show ?case by simp
next
  case (2 c)
  show ?case by auto
next
  case (3 c d cs)
  show ?case
  proof (cases "isspace c")
    case False
    with 3 show ?thesis by simp
  next
    case True
    show ?thesis
    proof (cases "isspace d")
      case d: True
      have "length (sub_ws (dropWhile isspace cs)) \<le> length cs"
        using length_sub_ws [of "dropWhile isspace cs"] length_dropWhile_le [of isspace cs]
        by simp
      then have "sub_ws (dropWhile isspace cs) \<noteq> d # cs" by auto
      with True d show ?thesis by simp
    next
      case d: False
      with True 3 show ?thesis by auto
    qed
  qed
qed

lemma clean_text_Some:
  "y \<noteq> [] \<Longrightarrow> clean_text (Some y) = sub_tags (sub_entities (sub_ws (strip y)))"
  by (simp add: clean_text_def)

lemma clean_text_tags_fixed: "sub_tags (clean_text t) = clean_text t"
  by (cases t) (simp_all add: clean_text_def sub_tags_idem)

lemma settled_imp_fix:
  assumes "settled y" and "sub_tags y = y"
  shows "clean_text (Some y) = y"
proof (cases "y = []")
  case True
  then show ?thesis by (simp add: clean_text_def)
next
  case False
  from assms(1) have "strip y = y" "sub_ws y = y" "sub_entities y = y"
    by (simp_all add: settled_def strip_fix_iff sub_ws_fix_iff sub_entities_fix_iff)
  with assms(2) False show ?thesis by (simp add: clean_text_Some)
qed

lemma fix_imp_settled:
  assumes "clean_text (Some y) = y"
  shows "settled y"
proof (cases "y = []")
  case True
  then show ?thesis by (simp add: settled_def trimmed_def)
next
  case False
  let ?a = "strip y"
  let ?b = "sub_ws ?a"
  let ?c = "sub_entities ?b"
  from assms False have d: "sub_tags ?c = y" by (simp add: clean_text_Some)
  have "length y \<le> length ?c" using length_sub_tags [of ?c] d by simp
  moreover have "length ?c \<le> length ?b" by (rule length_sub_entities)
  moreover have "length ?b \<le> length ?a" by (rule length_sub_ws)
  moreover have "length ?a \<le> length y" by (rule length_strip)
  ultimately have l: "length ?c = length y" "length ?c = length ?b" "length ?a = length y"
    by simp_all
  from l(1) d have "length (sub_tags ?c) = length ?c" by simp
  then have "sub_tags ?c = ?c" by (rule sub_tags_same_length)
  with d have c: "?c = y" by simp
  from l(2) have cb: "?c = ?b" by (simp add: sub_entities_same_length)
  have a: "?a = y"
  proof -
    have "length (lstrip y) \<le> length y" by (simp add: lstrip_def length_dropWhile_le)
    moreover have "length ?a \<le> length (lstrip y)"
      using length_dropWhile_le [of isspace "rev (lstrip y)"] by (simp add: strip_def rstrip_def)
    ultimately have e: "length (lstrip y) = length y" "length (rstrip (lstrip y)) = length (lstrip y)"
      using l(3) by (simp_all add: strip_def)
    from e(1) have 1: "lstrip y = y" by (simp add: lstrip_def dropWhile_same_length)
    from e(2) have "length (dropWhile isspace (rev (lstrip y))) = length (rev (lstrip y))"
      by (simp add: rstrip_def)
    then have "dropWhile isspace (rev (lstrip y)) = rev (lstrip y)"
      by (rule dropWhile_same_length)
    then have "rstrip (lstrip y) = lstrip y" by (simp add: rstrip_def)
    with 1 show ?thesis by (simp add: strip_def)
  qed
  from a c cb have "sub_ws y = y" "sub_entities y = y" by simp_all
  with a show ?thesis
    by (simp add: settled_def strip_fix_iff [symmetric] sub_ws_fix_iff [symmetric]
        sub_entities_fix_iff [symmetric])
qed

text \<open>
  Claim C4, as amended. \<open>clean_text\<close> is total (every pass is a terminating function),
  it returns the empty string for \<^verbatim>\<open>None\<close> and for the empty string, and cleaning
  twice is the same as cleaning once exactly when the cleaned string is settled: it has
  no whitespace at either end, no whitespace other than single spaces, and no entity.
  So idempotence fails only where removing an entity or a tag has exposed whitespace or
  an entity; it holds for strings that consist of tags only, for \<^verbatim>\<open>a<b>c\<close> and for
  \<^verbatim>\<open>AT&T\<close>.
\<close>

theorem clean_text_idempotent_iff_settled:
  "clean_text None = [] \<and> clean_text (Some []) = [] \<and>
   (clean_text (Some (clean_text (Some x))) = clean_text (Some x) \<longleftrightarrow>
      settled (clean_text (Some x)))"
proof (intro conjI)
  show "clean_text None = []" by (simp add: clean_text_def)
  show "clean_text (Some []) = []" by (simp add: clean_text_def)
  show "clean_text (Some (clean_text (Some x))) = clean_text (Some x) \<longleftrightarrow>
      settled (clean_text (Some x))"
    using settled_imp_fix [of "clean_text (Some x)"] fix_imp_settled [of "clean_text (Some x)"]
          clean_text_tags_fixed [of "Some x"]
    by blast
qed

theorem clean_text_idempotent_iff_settled_witness:
  "settled (clean_text (Some (ascii ''  AT&T <b>and</b>  more&amp;''))) \<and>
   clean_text (Some (clean_text (Some (ascii ''  AT&T <b>and</b>  more&amp;'')))) =
     clean_text (Some (ascii ''  AT&T <b>and</b>  more&amp;''))"
proof -
  have "clean_text (Some (ascii ''  AT&T <b>and</b>  more&amp;'')) = ascii ''AT&T and more''"
    by (simp add: clean_text_def ascii_def strip_def lstrip_def rstrip_def isspace_def
        entity_char_def)
  moreover have "settled (ascii ''AT&T and more'')"
    by (simp add: ascii_def isspace_def settled_def trimmed_def entity_at_def entity_char_def)
  ultimately have s: "settled (clean_text (Some (ascii ''  AT&T <b>and</b>  more&amp;'')))"
    by simp
  from clean_text_idempotent_iff_settled [of "ascii ''  AT&T <b>and</b>  more&amp;''"] s
  show ?thesis by blast
qed

text \<open>
  Claim C4 as stated fails: the tags go last, so removing one can leave whitespace at
  the end (or a double space, or an entity) that only a second run removes. Cleaning
  \<^verbatim>\<open>"a <b>"\<close> gives \<^verbatim>\<open>"a "\<close>, and cleaning that gives \<^verbatim>\<open>"a"\<close>.
\<close>

theorem clean_text_not_idempotent:
  "clean_text (Some (ascii ''a <b>'')) = ascii ''a '' \<and>
   clean_text (Some (clean_text (Some (ascii ''a <b>'')))) = ascii ''a'' \<and>
   clean_text (Some (clean_text (Some (ascii ''a <b>'')))) \<noteq> clean_text (Some (ascii ''a <b>''))"
  by (simp add: clean_text_def ascii_def strip_def lstrip_def rstrip_def isspace_def)

section \<open>Properties of perform\_search\<close>

lemma length_truncation_hint: "length truncation_hint = 60"
  by (simp add: truncation_hint_def ascii_def)

lemma length_cap_length: "length (cap_length r) \<le> 1860"
  by (simp add: cap_length_def length_truncation_hint)

lemma env_simps:
  "get_max_results found_env = 3" "get_summary_length found_env = 300"
  "ddgs_text found_env = (\<lambda>tr query n. Inr [one_result])"
  by (simp_all add: found_env_def test_env_def get_max_results_def get_summary_length_def)

lemma entry1: "format_entry 300 1 one_result = ascii ''1. Cats'' @ [10] @ ascii ''Cats are small cats....'' @ [10]"
  by (simp add: format_entry_def one_result_def slice_to_def str_of_nat.simps ascii_def
      clean_text_def strip_def lstrip_def rstrip_def isspace_def)

text \<open>
  Claim C3, as amended. When the backend returns a non-empty list, the result is the raw
  rendering if that has at most 1800 characters, and otherwise its first 1800 characters
  followed by the hint of 60 characters; so it never exceeds 1860 characters.
\<close>

theorem perform_search_length_bound:
  assumes "ddgs_text E tr query (get_max_results E) = Inr results" and "results \<noteq> []"
  shows "fst (perform_search E query tr) =
           (let raw = raw_rendering (get_max_results E) (get_summary_length E) query results
            in if length raw \<le> 1800 then raw else take 1800 raw @ truncation_hint) \<and>
         length (fst (perform_search E query tr)) \<le> 1860"
proof -
  have "fst (perform_search E query tr) =
          cap_length (raw_rendering (get_max_results E) (get_summary_length E) query results)"
    using assms by (simp add: perform_search_def Let_def)
  then show ?thesis
    using length_cap_length by (auto simp: cap_length_def Let_def)
qed

theorem perform_search_length_bound_witness:
  "ddgs_text found_env [] (ascii ''cats'') (get_max_results found_env) = Inr [one_result] \<and>
   [one_result] \<noteq> [] \<and>
   fst (perform_search found_env (ascii ''cats'') []) =
     (let raw = raw_rendering (get_max_results found_env) (get_summary_length found_env)
                  (ascii ''cats'') [one_result]
      in if length raw \<le> 1800 then raw else take 1800 raw @ truncation_hint) \<and>
   length (fst (perform_search found_env (ascii ''cats'') [])) \<le> 1860"
proof -
  have a: "ddgs_text found_env [] (ascii ''cats'') (get_max_results found_env) = Inr [one_result]"
    by (simp add: env_simps)
  have b: "[one_result] \<noteq> []" by simp
  from perform_search_length_bound [OF a b] a b show ?thesis by blast
qed

text \<open>
  Claim C3 as stated fails: the hint is appended after the cut at 1800, so a rendering
  that is cut has 1860 characters. Here the query has 1800 characters and the backend
  returns one result.
\<close>

theorem perform_search_exceeds_1800:
  "length (fst (perform_search found_env (replicate 1800 97) [])) = 1860"
  by (simp add: perform_search_def env_simps cap_length_def raw_rendering_def slice_to_def
      results_header_def entry1 length_truncation_hint)

section \<open>Properties of generate\_response\<close>

lemma generate_response_search_command:
  assumes "no_command E m" and "startswith (str_lower E m) (ascii ''search '')"
  shows "generate_response E m tr =
     (case perform_search E (strip (drop 7 m)) tr of
        (search_results, tr1) \<Rightarrow>
          if usable_results search_results then
            (case generate_contextual_response E m search_results tr1 of
               (Inl e, tr2) \<Rightarrow> (Inl e, tr2)
             | (Inr r, tr2) \<Rightarrow> (Inr (Some r), tr2))
          else
            (Inr (Some (if search_results \<noteq> [] then search_results
                        else ascii ''Sorry, I couldn'' @ [39] @
                             ascii ''t find any relevant information.'')), tr1))"
  using assms by (simp add: generate_response_def no_command_def Let_def)

lemma generate_response_llm:
  assumes "no_command E m" and "\<not> startswith (str_lower E m) (ascii ''search '')"
    and "truthy (OPENROUTER_API_KEY E)"
  shows "generate_response E m tr =
     (case ai_try_block E m tr of
        (Inr r, tr1) \<Rightarrow> (Inr r, tr1)
      | (Inl e, tr1) \<Rightarrow> generate_ai_response_http E m tr1)"
  using assms
  by (simp add: generate_response_def no_command_def Let_def split: prod.split sum.split)

lemma perform_search_eq:
  "perform_search E q tr =
     ((case ddgs_text E tr q (get_max_results E) of
         Inl e \<Rightarrow> search_error_text q
       | Inr results \<Rightarrow>
           if results = [] then no_results_text q
           else cap_length (raw_rendering (get_max_results E) (get_summary_length E) q results)),
      tr @ [DDGS_text q (get_max_results E)])"
  by (simp add: perform_search_def Let_def)

lemma no_results_not_usable: "\<not> usable_results (no_results_text q)"
  by (simp add: usable_results_def no_results_text_def couldnt_find_def startswith_def ascii_def)

lemma search_error_usable: "usable_results (search_error_text q)"
  by (simp add: usable_results_def search_error_text_def couldnt_find_def startswith_def ascii_def)

lemma join_Cons: "\<exists>rest. join sep (p # ps) = p @ rest"
  by (cases ps) auto

lemma raw_rendering_hd: "\<exists>rest. raw_rendering mr sl q rs = 240 # rest"
  using join_Cons [of "[10]" "results_header q"]
  by (auto simp: raw_rendering_def results_header_def)

lemma rendering_usable: "usable_results (cap_length (raw_rendering mr sl q rs))"
proof -
  obtain rest where r: "raw_rendering mr sl q rs = 240 # rest"
    using raw_rendering_hd by blast
  have "\<exists>rest'. cap_length (240 # rest) = 240 # rest'"
    by (simp add: cap_length_def)
  then obtain rest' where "cap_length (raw_rendering mr sl q rs) = 240 # rest'"
    using r by auto
  then show ?thesis
    by (simp add: usable_results_def couldnt_find_def startswith_def ascii_def)
qed


lemma api_without_key:
  "\<not> truthy (OPENROUTER_API_KEY E) \<Longrightarrow> call_openrouter_api E sp c n tr = (Inr None, tr)"
  by (simp add: call_openrouter_api_def)

lemma search_calls_api [simp]:
  "search_calls (snd (call_openrouter_api E sp c n tr)) = search_calls tr"
  by (simp add: call_openrouter_api_def search_calls_def split: sum.split)

lemma search_calls_http [simp]:
  "search_calls (snd (generate_ai_response_http E m tr)) = search_calls tr"
  by (simp add: generate_ai_response_http_def)

lemma search_calls_contextual [simp]:
  "search_calls (snd (generate_contextual_response E m sr tr)) = search_calls tr"
proof -
  obtain r tr' where c: "call_openrouter_api E contextual_prompt (context_message m sr) 200 tr = (r, tr')"
    by (cases "call_openrouter_api E contextual_prompt (context_message m sr) 200 tr")
  with search_calls_api [of E contextual_prompt "context_message m sr" 200 tr]
  have "search_calls tr' = search_calls tr" by simp
  with c show ?thesis
    by (simp add: generate_contextual_response_def split: sum.split)
qed

lemma search_calls_perform [simp]:
  "search_calls (snd (perform_search E q tr)) =
     search_calls tr @ [DDGS_text q (get_max_results E)]"
  by (simp add: perform_search_eq search_calls_def)

text \<open>
  Claim C5. A message whose lower-cased form contains \<^verbatim>\<open>hello\<close> or \<^verbatim>\<open>hi\<close> gets the
  canned greeting, in every environment (with or without credentials, whatever the
  search configuration), and no external call is added to those made before.
\<close>

theorem greeting_for_hello_or_hi:
  assumes "(\<exists>a b. str_lower E user_message = a @ ascii ''hello'' @ b) \<or>
           (\<exists>a b. str_lower E user_message = a @ ascii ''hi'' @ b)"
  shows "generate_response E user_message tr = (Inr (Some greeting_text), tr)"
  using assms by (simp add: generate_response_def contains_iff)

theorem greeting_for_hello_or_hi_witness:
  "((\<exists>a b. str_lower test_env (ascii ''Chicago weather'') = a @ ascii ''hello'' @ b) \<or>
    (\<exists>a b. str_lower test_env (ascii ''Chicago weather'') = a @ ascii ''hi'' @ b)) \<and>
   generate_response test_env (ascii ''Chicago weather'') [] = (Inr (Some greeting_text), [])"
proof -
  have "str_lower test_env (ascii ''Chicago weather'') = ascii ''c'' @ ascii ''hi'' @ ascii ''cago weather''"
    by (simp add: test_env_def lower_ascii_def ascii_def ascii_lower_def)
  then have h: "(\<exists>a b. str_lower test_env (ascii ''Chicago weather'') = a @ ascii ''hello'' @ b) \<or>
    (\<exists>a b. str_lower test_env (ascii ''Chicago weather'') = a @ ascii ''hi'' @ b)"
    by blast
  from greeting_for_hello_or_hi [OF h, of "[]"] h show ?thesis by blast
qed

text \<open>
  Claim C6, as amended: for a message that starts with \<^verbatim>\<open>search \<close> in any case and
  contains none of the four canned commands, exactly one search is made, its query is
  the trimmed rest of the message behind the first seven characters, and when the backend
  returns no result the reply is the no-results string, which contains that query.
\<close>

theorem search_command_query:
  assumes "startswith (str_lower E user_message) (ascii ''search '')"
    and "no_command E user_message"
  shows "search_calls (snd (generate_response E user_message [])) =
           [DDGS_text (strip (drop 7 user_message)) (get_max_results E)] \<and>
         (ddgs_text E [] (strip (drop 7 user_message)) (get_max_results E) = Inr [] \<longrightarrow>
            fst (generate_response E user_message []) =
              Inr (Some (no_results_text (strip (drop 7 user_message)))) \<and>
            contains (no_results_text (strip (drop 7 user_message)))
              (strip (drop 7 user_message)))"
proof (intro conjI impI)
  let ?q = "strip (drop 7 user_message)"
  obtain sr tr1 where p: "perform_search E ?q [] = (sr, tr1)"
    by (cases "perform_search E ?q []")
  with search_calls_perform [of E ?q "[]"]
  have tr1: "search_calls tr1 = [DDGS_text ?q (get_max_results E)]"
    by (simp add: search_calls_def)
  obtain r tr2 where g: "generate_contextual_response E user_message sr tr1 = (r, tr2)"
    by (cases "generate_contextual_response E user_message sr tr1")
  with search_calls_contextual [of E user_message sr tr1]
  have "search_calls tr2 = search_calls tr1" by simp
  with tr1 p g show "search_calls (snd (generate_response E user_message [])) =
      [DDGS_text ?q (get_max_results E)]"
    by (simp add: generate_response_search_command [OF assms(2,1)] split: sum.split)
next
  let ?q = "strip (drop 7 user_message)"
  assume "ddgs_text E [] ?q (get_max_results E) = Inr []"
  then have "perform_search E ?q [] = (no_results_text ?q, [DDGS_text ?q (get_max_results E)])"
    by (simp add: perform_search_eq)
  then show "fst (generate_response E user_message []) = Inr (Some (no_results_text ?q))"
    by (simp add: generate_response_search_command [OF assms(2,1)] no_results_not_usable)
       (simp add: no_results_text_def)
next
  let ?q = "strip (drop 7 user_message)"
  have "\<exists>a b. no_results_text ?q = a @ ?q @ b"
    unfolding no_results_text_def by (metis append.assoc)
  then show "contains (no_results_text ?q) ?q" by (simp add: contains_iff)
qed

theorem search_command_query_witness:
  "startswith (str_lower test_env (ascii ''Search  cats '')) (ascii ''search '') \<and>
   no_command test_env (ascii ''Search  cats '') \<and>
   search_calls (snd (generate_response test_env (ascii ''Search  cats '') [])) =
     [DDGS_text (ascii ''cats'') 3] \<and>
   ddgs_text test_env [] (ascii ''cats'') 3 = Inr [] \<and>
   fst (generate_response test_env (ascii ''Search  cats '') []) =
     Inr (Some (no_results_text (ascii ''cats'')))"
  using search_command_query [of test_env "ascii ''Search  cats ''"]
  by (simp add: test_env_def lower_ascii_def ascii_lower_def ascii_def startswith_def
      no_command_def strip_def lstrip_def rstrip_def isspace_def get_max_results_def)

text \<open>
  Claim C6 as stated fails: the canned commands are tested first, so a message that
  starts with \<^verbatim>\<open>search \<close> and contains \<^verbatim>\<open>hi\<close> is answered with the greeting; no
  search is made and the reply is not the no-results string.
\<close>

theorem search_command_with_hi_greets:
  "startswith (str_lower test_env (ascii ''search hiking trails'')) (ascii ''search '') \<and>
   generate_response test_env (ascii ''search hiking trails'') [] = (Inr (Some greeting_text), []) \<and>
   greeting_text \<noteq> no_results_text (ascii ''hiking trails'')"
  by (simp add: generate_response_def test_env_def lower_ascii_def ascii_lower_def ascii_def
      startswith_def greeting_text_def no_results_text_def)

text \<open>
  Claim C10. For a message that starts with \<^verbatim>\<open>search \<close> and contains no canned
  command, without credentials, the search is made, and when the backend returns results
  the reply is the formatted result string itself; the search is the only external call.
\<close>

theorem search_command_without_credentials:
  assumes "startswith (str_lower E user_message) (ascii ''search '')"
    and "no_command E user_message"
    and "\<not> truthy (OPENROUTER_API_KEY E)"
    and "ddgs_text E [] (strip (drop 7 user_message)) (get_max_results E) = Inr results"
    and "results \<noteq> []"
  shows "generate_response E user_message [] =
           (Inr (Some (cap_length (raw_rendering (get_max_results E) (get_summary_length E)
                         (strip (drop 7 user_message)) results))),
            [DDGS_text (strip (drop 7 user_message)) (get_max_results E)])"
  using assms(3-5)
  by (simp add: generate_response_search_command [OF assms(2,1)] perform_search_eq
      rendering_usable generate_contextual_response_def api_without_key)

theorem search_command_without_credentials_witness:
  "startswith (str_lower no_key_env (ascii ''search cats'')) (ascii ''search '') \<and>
   no_command no_key_env (ascii ''search cats'') \<and>
   \<not> truthy (OPENROUTER_API_KEY no_key_env) \<and>
   ddgs_text no_key_env [] (ascii ''cats'') 3 = Inr [one_result] \<and>
   generate_response no_key_env (ascii ''search cats'') [] =
     (Inr (Some (cap_length (raw_rendering 3 300 (ascii ''cats'') [one_result]))),
      [DDGS_text (ascii ''cats'') 3])"
  using search_command_without_credentials [of no_key_env "ascii ''search cats''" "[one_result]"]
  by (simp add: no_key_env_def found_env_def test_env_def lower_ascii_def ascii_lower_def ascii_def
      startswith_def no_command_def strip_def lstrip_def rstrip_def isspace_def get_max_results_def
      get_summary_length_def)

section \<open>The classifier's answer and the search\<close>

lemma imatch_iff: "imatch pat s \<longleftrightarrow> (\<exists>t b. s = t @ b \<and> list_all2 ieq pat t)"
proof (induction pat s rule: imatch.induct)
  case (1 s)
  show ?case by simp
next
  case (2 p ps)
  show ?case by (simp add: list_all2_Cons1)
next
  case (3 p ps c cs)
  show ?case
  proof
    assume "imatch (p # ps) (c # cs)"
    with 3 obtain t b where "ieq p c" "cs = t @ b" "list_all2 ieq ps t" by auto
    then have "c # cs = (c # t) @ b \<and> list_all2 ieq (p # ps) (c # t)" by simp
    then show "\<exists>t b. c # cs = t @ b \<and> list_all2 ieq (p # ps) t" by blast
  next
    assume "\<exists>t b. c # cs = t @ b \<and> list_all2 ieq (p # ps) t"
    then obtain t b where tb: "c # cs = t @ b" "list_all2 ieq (p # ps) t" by blast
    then obtain d ds where t: "t = d # ds" "ieq p d" "list_all2 ieq ps ds"
      by (auto simp: list_all2_Cons1)
    with tb have "d = c" "cs = ds @ b" by simp_all
    with t 3 show "imatch (p # ps) (c # cs)" by auto
  qed
qed

lemma isearch_iff: "isearch pat s \<longleftrightarrow> (\<exists>a t b. s = a @ t @ b \<and> list_all2 ieq pat t)"
proof (induction s)
  case Nil
  show ?case by (auto simp: imatch_iff)
next
  case (Cons c cs)
  show ?case
  proof
    assume "isearch pat (c # cs)"
    then consider "imatch pat (c # cs)" | "isearch pat cs" by auto
    then show "\<exists>a t b. c # cs = a @ t @ b \<and> list_all2 ieq pat t"
    proof cases
      case 1
      then obtain t b where "c # cs = [] @ t @ b" "list_all2 ieq pat t"
        by (auto simp: imatch_iff)
      then show ?thesis by blast
    next
      case 2
      with Cons.IH obtain a t b where "cs = a @ t @ b" "list_all2 ieq pat t" by blast
      then have "c # cs = (c # a) @ t @ b \<and> list_all2 ieq pat t" by simp
      then show ?thesis by blast
    qed
  next
    assume "\<exists>a t b. c # cs = a @ t @ b \<and> list_all2 ieq pat t"
    then obtain a t b where atb: "c # cs = a @ t @ b" "list_all2 ieq pat t" by blast
    show "isearch pat (c # cs)"
    proof (cases a)
      case Nil
      with atb have "imatch pat (c # cs)" by (auto simp: imatch_iff)
      then show ?thesis by simp
    next
      case (Cons d ds)
      with atb have "cs = ds @ t @ b" by simp
      with atb(2) Cons.IH have "isearch pat cs" by blast
      then show ?thesis by simp
    qed
  qed
qed

lemma yes_tag_nonempty: "\<not> isearch yes_tag []"
  by (simp add: yes_tag_def ascii_def)

lemma should_search_Some: "should_search (Some r) = isearch yes_tag r"
  using yes_tag_nonempty by (cases r) (simp_all add: should_search_def)

lemma analyze_with_key:
  "truthy (OPENROUTER_API_KEY E) \<Longrightarrow>
   analyze_search_need E m tr =
     (case requests_post E tr analysis_prompt m 100 of
        Inl e \<Rightarrow> (Inl e, tr @ [Requests_post analysis_prompt m 100])
      | Inr content \<Rightarrow> (Inr (Some (strip content)), tr @ [Requests_post analysis_prompt m 100]))"
  by (simp add: analyze_search_need_def call_openrouter_api_def)

lemma snd_wrap:
  "snd (case x of (Inl e, t) \<Rightarrow> (Inl e, t) | (Inr r, t) \<Rightarrow> (Inr (f r), t)) = snd x"
  by (simp split: prod.split sum.split)

lemma search_calls_snoc_post [simp]:
  "search_calls (tr @ [Requests_post a b n]) = search_calls tr"
  by (simp add: search_calls_def)

lemma search_calls_try_block:
  assumes "truthy (OPENROUTER_API_KEY E)"
  shows "search_calls (snd (ai_try_block E m tr)) =
     search_calls tr @
     (case requests_post E tr analysis_prompt m 100 of
        Inl e \<Rightarrow> []
      | Inr content \<Rightarrow>
          if isearch yes_tag (strip content)
          then [DDGS_text (extract_search_query (Some (strip content)) m) (get_max_results E)]
          else [])"
proof (cases "requests_post E tr analysis_prompt m 100")
  case (Inl e)
  with assms show ?thesis by (simp add: ai_try_block_def analyze_with_key)
next
  case (Inr content)
  let ?tr1 = "tr @ [Requests_post analysis_prompt m 100]"
  let ?q = "extract_search_query (Some (strip content)) m"
  show ?thesis
  proof (cases "isearch yes_tag (strip content)")
    case False
    with Inr assms show ?thesis
      by (simp add: ai_try_block_def analyze_with_key should_search_Some)
  next
    case True
    obtain sr tr2 where p: "perform_search E ?q ?tr1 = (sr, tr2)"
      by (cases "perform_search E ?q ?tr1")
    with search_calls_perform [of E ?q ?tr1]
    have tr2: "search_calls tr2 = search_calls tr @ [DDGS_text ?q (get_max_results E)]"
      by simp
    have "search_calls (snd (generate_contextual_response E m sr tr2)) = search_calls tr2"
         "search_calls (snd (generate_ai_response_http E m tr2)) = search_calls tr2"
      by simp_all
    with True Inr assms p tr2 show ?thesis
      by (simp add: ai_try_block_def analyze_with_key should_search_Some snd_wrap)
  qed
qed

text \<open>
  Claim C7, as amended. In the LLM-assisted path (no canned command, no search command,
  credentials present) the search backend is called exactly when the classifier's
  answer contains \<^verbatim>\<open><search>YES</search>\<close> in any case, once, with the extracted query;
  an answer without that tag (so also one with \<^verbatim>\<open><search>NO</search>\<close> only, or an
  empty one) and a classifier call that raises lead to no search.
\<close>

theorem search_iff_yes_tag:
  assumes "no_command E user_message"
    and "\<not> startswith (str_lower E user_message) (ascii ''search '')"
    and "truthy (OPENROUTER_API_KEY E)"
  shows "search_calls (snd (generate_response E user_message [])) =
     (case requests_post E [] analysis_prompt user_message 100 of
        Inl e \<Rightarrow> []
      | Inr content \<Rightarrow>
          if isearch yes_tag (strip content)
          then [DDGS_text (extract_search_query (Some (strip content)) user_message)
                  (get_max_results E)]
          else [])"
proof -
  obtain r tr1 where b: "ai_try_block E user_message [] = (r, tr1)"
    by (cases "ai_try_block E user_message []")
  have "search_calls (snd (generate_response E user_message [])) = search_calls tr1"
    using b search_calls_http [of E user_message tr1]
    by (simp add: generate_response_llm [OF assms] split: sum.split)
  also have "\<dots> = search_calls (snd (ai_try_block E user_message []))" using b by simp
  also have "\<dots> = search_calls [] @
     (case requests_post E [] analysis_prompt user_message 100 of
        Inl e \<Rightarrow> []
      | Inr content \<Rightarrow>
          if isearch yes_tag (strip content)
          then [DDGS_text (extract_search_query (Some (strip content)) user_message)
                  (get_max_results E)]
          else [])"
    by (rule search_calls_try_block [OF assms(3)])
  finally show ?thesis by (simp add: search_calls_def)
qed

theorem search_iff_yes_tag_witness:
  "no_command weather_env (ascii ''What is the weather today?'') \<and>
   \<not> startswith (str_lower weather_env (ascii ''What is the weather today?'')) (ascii ''search '') \<and>
   truthy (OPENROUTER_API_KEY weather_env) \<and>
   search_calls (snd (generate_response weather_env (ascii ''What is the weather today?'') [])) =
     [DDGS_text (ascii ''weather today'') 3]"
  using search_iff_yes_tag [of weather_env "ascii ''What is the weather today?''"]
  by (simp add: weather_env_def found_env_def test_env_def lower_ascii_def ascii_lower_def ascii_def
      startswith_def no_command_def strip_def lstrip_def rstrip_def isspace_def get_max_results_def
      yes_tag_def ieq_def extract_search_query_def query_here_def search_keyword_def
      query_char_def query_attempt_def Let_def)

text \<open>
  Claim C7 as stated fails: the code never looks for \<^verbatim>\<open><search>NO</search>\<close>. An answer
  that contains it and, later, \<^verbatim>\<open><search>YES</search>\<close> makes the program search.
\<close>

theorem no_tag_with_yes_tag_searches:
  "contains both_tags_response (ascii ''<search>NO</search>'') \<and>
   requests_post both_tags_env [] analysis_prompt (ascii ''tell me a joke'') 100 =
     Inr both_tags_response \<and>
   search_calls (snd (generate_response both_tags_env (ascii ''tell me a joke'') [])) =
     [DDGS_text (ascii ''tell me a joke'') 3]"
  by (simp add: both_tags_env_def test_env_def both_tags_response_def generate_response_def
      lower_ascii_def ascii_lower_def ascii_def startswith_def ai_try_block_def
      analyze_search_need_def call_openrouter_api_def strip_def lstrip_def rstrip_def isspace_def
      should_search_def yes_tag_def ieq_def extract_search_query_def query_here_def
      search_keyword_def perform_search_def get_max_results_def get_summary_length_def
      usable_results_def no_results_text_def couldnt_find_def generate_ai_response_http_def
      search_calls_def Let_def)

section \<open>Properties of extract\_search\_query\<close>

lemma imatch_append: "imatch pat s \<Longrightarrow> imatch pat (s @ r)"
proof -
  assume "imatch pat s"
  then obtain t b where "s = t @ b" "list_all2 ieq pat t" by (auto simp: imatch_iff)
  then have "s @ r = t @ (b @ r) \<and> list_all2 ieq pat t" by simp
  then show ?thesis unfolding imatch_iff by blast
qed

lemma re_search_skip: "kw_absent pre s \<Longrightarrow> re_search_query (pre @ s) = re_search_query s"
  by (induction pre) (simp_all add: query_here_def)

lemma re_search_none: "\<not> isearch search_keyword r \<Longrightarrow> re_search_query r = None"
  by (induction r) (simp_all add: query_here_def)

lemma query_tail_hit: "query_attempt j r = Some g \<Longrightarrow> query_tail j r = Some g"
  by (cases j) simp_all

lemma strip_Nil: "strip [] = []"
  by (simp add: strip_def lstrip_def rstrip_def)

lemma query_attempt_group:
  assumes qt: "qt = [] \<and> \<not> isspace (hd X) \<or> qt = [34] \<or> qt = [39]"
    and X: "list_all query_char X" "X \<noteq> []"
    and t: "t = [] \<or> \<not> query_char (hd t)"
  shows "query_attempt (length ws) (ws @ qt @ X @ t) = Some X"
proof -
  have "takeWhile query_char t = []" using t by (cases t) auto
  with X(1) have tq: "takeWhile query_char (X @ t) = X"
    by (simp add: list_all_iff)
  from X obtain x xs where x: "X = x # xs" "query_char x" by (cases X) auto
  then have nq: "x \<noteq> 34" "x \<noteq> 39" by (simp_all add: query_char_def)
  from qt consider "qt = []" | "qt = [34]" | "qt = [39]" by blast
  then show ?thesis
  proof cases
    case 1
    with tq X(2) show ?thesis
      using x nq by (simp add: query_attempt_def Let_def)
  next
    case 2
    with tq X(2) show ?thesis by (simp add: query_attempt_def Let_def query_char_def)
  next
    case 3
    with tq X(2) show ?thesis by (simp add: query_attempt_def Let_def query_char_def)
  qed
qed

lemma extract_suggested:
  assumes kw: "imatch search_keyword kw" "length kw = 7"
    and pre: "kw_absent pre (kw @ ws @ qt @ X @ t)"
    and ws: "list_all isspace ws"
    and qt: "qt = [] \<and> \<not> isspace (hd X) \<or> qt = [34] \<or> qt = [39]"
    and X: "list_all query_char X" "strip X \<noteq> []"
    and t: "t = [] \<or> \<not> query_char (hd t)"
  shows "extract_search_query (Some (pre @ kw @ ws @ qt @ X @ t)) user_message = strip X"
proof -
  let ?rest = "ws @ qt @ X @ t"
  from X(2) have Xne: "X \<noteq> []" using strip_Nil by auto
  have "takeWhile isspace (qt @ X @ t) = []"
    using qt Xne by (cases X) (auto simp: isspace_def)
  with ws have tw: "takeWhile isspace ?rest = ws" by (simp add: list_all_iff)
  have "query_attempt (length ws) ?rest = Some X"
    using qt X(1) Xne t by (rule query_attempt_group)
  then have tail: "query_tail (length ws) ?rest = Some X" by (rule query_tail_hit)
  from kw(2) obtain c cs where c: "kw = c # cs" by (cases kw) auto
  have "imatch search_keyword (kw @ ?rest)" using kw(1) by (rule imatch_append)
  with tail tw kw(2) have "query_here (kw @ ?rest) = Some X" by (simp add: query_here_def)
  with c have "re_search_query (kw @ ?rest) = Some X" by simp
  with pre have "re_search_query (pre @ kw @ ?rest) = Some X" by (simp add: re_search_skip)
  with X(2) c show ?thesis by (simp add: extract_search_query_def)
qed

lemma extract_fallback:
  "\<not> isearch search_keyword r \<Longrightarrow> extract_search_query (Some r) user_message = user_message"
  by (simp add: extract_search_query_def re_search_none)

text \<open>
  What the code does with a suggestion. Let the first \<^verbatim>\<open>Search:\<close> (in any case) of the
  classifier's answer be followed by whitespace \<open>ws\<close>, an optional quote \<open>qt\<close> and a
  text \<open>X\<close> that holds no double quote, apostrophe, full stop or newline, is not blank,
  and is followed by such a character or by the end of the answer. Then the query is
  \<open>X\<close> trimmed. When the answer has no \<^verbatim>\<open>Search:\<close>, or is empty or absent, the query
  is the user's message.
\<close>

lemma extract_search_query_first_match:
  "(imatch search_keyword kw \<and> length kw = 7 \<and> kw_absent pre (kw @ ws @ qt @ X @ t) \<and>
    list_all isspace ws \<and> (qt = [] \<and> \<not> isspace (hd X) \<or> qt = [34] \<or> qt = [39]) \<and>
    list_all query_char X \<and> strip X \<noteq> [] \<and> (t = [] \<or> \<not> query_char (hd t)) \<longrightarrow>
      extract_search_query (Some (pre @ kw @ ws @ qt @ X @ t)) user_message = strip X) \<and>
   (\<not> isearch search_keyword r \<longrightarrow> extract_search_query (Some r) user_message = user_message) \<and>
   extract_search_query None user_message = user_message \<and>
   extract_search_query (Some []) user_message = user_message"
  using extract_suggested [of kw pre ws qt X t user_message] extract_fallback [of r user_message]
  by (simp add: extract_search_query_def)

lemma extract_search_query_first_match_example:
  "imatch search_keyword (ascii ''Search:'') \<and> length (ascii ''Search:'') = 7 \<and>
   kw_absent (ascii ''<search>YES</search> Need current weather data. '')
     (ascii ''Search:'' @ [32] @ [34] @ ascii '' weather today '' @ [34]) \<and>
   list_all isspace [32] \<and> list_all query_char (ascii '' weather today '') \<and>
   strip (ascii '' weather today '') = ascii ''weather today'' \<and>
   \<not> query_char (hd [34]) \<and>
   extract_search_query
     (Some (ascii ''<search>YES</search> Need current weather data. '' @
            ascii ''Search:'' @ [32] @ [34] @ ascii '' weather today '' @ [34]))
     (ascii ''What is the weather today?'') = ascii ''weather today'' \<and>
   \<not> isearch search_keyword (ascii ''<search>YES</search> Need current weather data.'') \<and>
   extract_search_query (Some (ascii ''<search>YES</search> Need current weather data.''))
     (ascii ''What is the weather today?'') = ascii ''What is the weather today?''"
  using extract_search_query_first_match
          [of "ascii ''Search:''" "ascii ''<search>YES</search> Need current weather data. ''"
              "[32]" "[34]" "ascii '' weather today ''" "[34]" "ascii ''What is the weather today?''"
              "ascii ''<search>YES</search> Need current weather data.''"]
  by (simp add: search_keyword_def ascii_def ieq_def ascii_lower_def isspace_def query_char_def
      strip_def lstrip_def rstrip_def)

text \<open>
  Claim C8 does not hold of the code. The group of the pattern stops at the first full
  stop, apostrophe or quote, also between the quotes that the first part of the pattern
  has matched. A suggested query that holds one of these characters is cut there: of
  \<^verbatim>\<open>Search: "python 3.12 release"\<close> the program searches \<^verbatim>\<open>python 3\<close>, of
  \<^verbatim>\<open>Search: "U.S. election results"\<close> it searches \<^verbatim>\<open>U\<close>.
\<close>

theorem suggested_query_cut_at_dot:
  "extract_search_query
     (Some (ascii ''<search>YES</search> Need release notes. Search: '' @ [34] @
            ascii ''python 3.12 release'' @ [34]))
     (ascii ''What is new in Python?'') = ascii ''python 3'' \<and>
   ascii ''python 3'' \<noteq> ascii ''python 3.12 release'' \<and>
   extract_search_query
     (Some (ascii ''<search>YES</search> Need current results. Search: '' @ [34] @
            ascii ''U.S. election results'' @ [34]))
     (ascii ''Who won the election?'') = ascii ''U''"
  by (simp add: extract_search_query_def query_here_def search_keyword_def ascii_def ieq_def
      ascii_lower_def isspace_def query_char_def query_attempt_def strip_def lstrip_def rstrip_def
      Let_def)

section \<open>Failures of the completion service and of the search\<close>

text \<open>The definitions that a run of \<open>generate_response\<close> in one of the environments unfolds.\<close>

lemmas eval_defs =
  generate_response_def ai_try_block_def analyze_search_need_def call_openrouter_api_def
  generate_ai_response_http_def generate_contextual_response_def
  should_search_def yes_tag_def ieq_def ascii_lower_def
  extract_search_query_def query_here_def search_keyword_def query_char_def query_attempt_def
  perform_search_def get_max_results_def get_summary_length_def
  no_results_not_usable search_error_usable rendering_usable
  startswith_def strip_def lstrip_def rstrip_def isspace_def ascii_def Let_def
  test_env_def found_env_def lower_ascii_def

text \<open>
  Claim C1 does not hold of the code. With credentials, a search command whose search
  succeeds calls the completion service outside any \<^verbatim>\<open>try\<close>, so its failure reaches
  the caller; in the LLM-assisted path the handler of the \<^verbatim>\<open>try\<close> block calls the
  service again, unprotected; and a completion whose content is blank is returned as
  the empty string.
\<close>

theorem generate_response_raises_or_returns_empty:
  "generate_response post_fails_env (ascii ''search cats'') [] =
     (Inl RequestException,
      [DDGS_text (ascii ''cats'') 3,
       Requests_post contextual_prompt
         (context_message (ascii ''search cats'')
            (cap_length (raw_rendering 3 300 (ascii ''cats'') [one_result]))) 200]) \<and>
   generate_response post_fails_env (ascii ''tell me a joke'') [] =
     (Inl RequestException,
      [Requests_post analysis_prompt (ascii ''tell me a joke'') 100,
       Requests_post direct_prompt (ascii ''tell me a joke'') 150]) \<and>
   generate_response test_env (ascii ''tell me a joke'') [] =
     (Inr (Some []),
      [Requests_post analysis_prompt (ascii ''tell me a joke'') 100,
       Requests_post direct_prompt (ascii ''tell me a joke'') 150])"
  by (simp add: post_fails_env_def eval_defs)

text \<open>
  The fallback that the code does have: when the classifier asks for a search and the
  backend returns no result, the reply comes from direct-answer generation (a second
  time from the handler of the \<^verbatim>\<open>try\<close> block, if the first call raises).
\<close>

lemma llm_zero_results_fall_back:
  assumes "no_command E m" and "\<not> startswith (str_lower E m) (ascii ''search '')"
    and "truthy (OPENROUTER_API_KEY E)"
    and "requests_post E [] analysis_prompt m 100 = Inr content"
    and "isearch yes_tag (strip content)"
    and "ddgs_text E [Requests_post analysis_prompt m 100]
           (extract_search_query (Some (strip content)) m) (get_max_results E) = Inr []"
  shows "generate_response E m [] =
     (case generate_ai_response_http E m
             [Requests_post analysis_prompt m 100,
              DDGS_text (extract_search_query (Some (strip content)) m) (get_max_results E)] of
        (Inr r, t) \<Rightarrow> (Inr r, t)
      | (Inl e, t) \<Rightarrow> generate_ai_response_http E m t)"
  using assms(3-6)
  by (simp add: generate_response_llm [OF assms(1-3)] ai_try_block_def analyze_with_key
      should_search_Some perform_search_eq no_results_not_usable)

text \<open>
  Claim C2 does not hold of the code. When the search backend raises, \<^verbatim>\<open>perform_search\<close>
  returns its error text, which does not start with \<^verbatim>\<open>I couldn't find\<close>; the text is
  passed to the contextual composition as search results and, when the completion is
  blank, is the reply.
\<close>

theorem search_failure_text_used_as_grounding:
  "generate_response search_down_env (ascii ''latest news'') [] =
     (Inr (Some (search_error_text (ascii ''latest news''))),
      [Requests_post analysis_prompt (ascii ''latest news'') 100,
       DDGS_text (ascii ''latest news'') 3,
       Requests_post contextual_prompt
         (context_message (ascii ''latest news'') (search_error_text (ascii ''latest news''))) 200])"
  by (simp add: search_down_env_def eval_defs)

text \<open>
  The fallback that the code does have: when the completion call returns without a
  text (\<^verbatim>\<open>None\<close> for missing credentials, or a blank content), the formatted search
  results are returned as they are.
\<close>

lemma contextual_fallback_without_text:
  assumes "call_openrouter_api E contextual_prompt (context_message m sr) 200 tr = (Inr r, tr')"
    and "\<not> truthy r"
  shows "generate_contextual_response E m sr tr = (Inr sr, tr')"
  using assms by (simp add: generate_contextual_response_def)

text \<open>
  Claim C9 does not hold of the code. A completion call that fails raises, and
  \<^verbatim>\<open>generate_contextual_response\<close> has no handler: the exception leaves it and the
  search results are not returned.
\<close>

theorem contextual_response_raises:
  "generate_contextual_response post_fails_env (ascii ''search cats'')
     (cap_length (raw_rendering 3 300 (ascii ''cats'') [one_result])) [] =
     (Inl RequestException,
      [Requests_post contextual_prompt
         (context_message (ascii ''search cats'')
            (cap_length (raw_rendering 3 300 (ascii ''cats'') [one_result]))) 200])"
  by (simp add: post_fails_env_def generate_contextual_response_def call_openrouter_api_def
      found_env_def test_env_def ascii_def)

end
